theory Spec2Isabelle
  imports Main
begin

section \<open>Options and command configurations\<close>

text \<open>
  The development follows the header \<open>CommandProcessor.hpp\<close> of the library: the classes
  \<open>Option\<close>, \<open>CommandConfig\<close>, \<open>CommandArgs\<close>, \<open>CommandStatus\<close>, \<open>CommandCaller\<close> and
  \<open>Commander\<close>, in the revision in which \<open>CommandArgs\<close> parses its segment itself
  (\<open>CommandArgs::parse\<close>) and \<open>Commander::run\<close> wraps its loop in one \<open>try\<close> block.

  Conventions of the embedding:
  \<^item> a \<open>std::vector<std::string>\<close> is a list of strings; a loop index \<open>i\<close> into the vector
    is represented by the suffix of tokens from position \<open>i\<close> on;
  \<^item> a \<open>std::unordered_map\<close> is a partial map;
  \<^item> \<open>size_t\<close> values are natural numbers, \<open>numeric_limits<size_t>::max()\<close> is
    \<open>SIZE_MAX\<close> (64-bit); counters in the code never exceed the length of the token vector;
  \<^item> a function that can throw returns a sum, \<open>Inl\<close> carrying the exception;
  \<^item> a function that contains a loop which may fail to terminate returns an \<open>option\<close>,
    \<open>None\<close> standing for a computation that never returns.
\<close>

type_synonym ArgVec = "string list"

record Option =
  opt_name :: string
  variadicSize :: bool
  argSize :: nat

record CommandConfig =
  cfg_name :: string
  m_options :: "string \<rightharpoonup> Option"

text \<open>
  Exceptions.  The library itself throws \<open>std::runtime_error\<close>; \<open>std::stoul\<close> throws
  \<open>std::invalid_argument\<close> or \<open>std::out_of_range\<close>, \<open>unordered_map::at\<close> throws
  \<open>std::out_of_range\<close>, calling an empty \<open>std::function\<close> throws
  \<open>std::bad_function_call\<close>.  A handler supplied by the host application may throw any of
  these, any other class derived from \<open>std::exception\<close> (\<open>std_exception\<close>, with its
  \<open>what()\<close> text), or a value of a type that is not derived from \<open>std::exception\<close>
  (\<open>non_std\<close>).
\<close>

datatype exn =
    runtime_error string
  | invalid_argument string
  | out_of_range string
  | bad_function_call
  | std_exception string
  | non_std

definition SIZE_MAX :: nat where
  "SIZE_MAX = 2 ^ 64 - 1"

definition dq :: string where
  "dq = [CHR 0x22]"

definition key_not_found :: "string \<Rightarrow> exn" where
  "key_not_found n = runtime_error (''key '' @ dq @ n @ dq @ '' not found'')"

definition has :: "CommandConfig \<Rightarrow> string \<Rightarrow> bool" where
  "has cfg n = (m_options cfg n \<noteq> None)"

definition option :: "CommandConfig \<Rightarrow> string \<Rightarrow> exn + Option" where
  "option cfg n = (case m_options cfg n of
       None \<Rightarrow> Inl (key_not_found n)
     | Some res \<Rightarrow> Inr res)"

definition CommandConfig_append :: "CommandConfig \<Rightarrow> Option \<Rightarrow> CommandConfig" where
  "CommandConfig_append cfg opt = cfg\<lparr>m_options := (m_options cfg)(opt_name opt \<mapsto> opt)\<rparr>"

section \<open>CommandArgs: parsing a segment\<close>

text \<open>
  \<open>CommandArgs::parse\<close> scans the segment once.  \<open>unk_opt\<close> is the local sentinel option
  \<open>Option unk_opt("unknown")\<close> with unbounded arity.  \<open>parse_while\<close> is the inner
  \<open>while\<close> loop that appends value tokens to \<open>val\<close> (each followed by a space) and counts them;
  \<open>pop_back\<close> removes the trailing space; \<open>parse_step\<close> is the body of the outer \<open>for\<close> loop
  and \<open>parse_loop\<close> iterates it until the tokens are used up.  An iteration need not consume
  a token, so \<open>parse_loop\<close> is a partial function.
\<close>

definition isProperty :: "CommandConfig \<Rightarrow> string \<Rightarrow> bool" where
  "isProperty cfg val = has cfg val"

definition isCommand :: "CommandConfig \<Rightarrow> string \<Rightarrow> bool" where
  "isCommand cfg val = (val = cfg_name cfg)"

definition unk_opt :: Option where
  "unk_opt = \<lparr>opt_name = ''unknown'', variadicSize = True, argSize = SIZE_MAX\<rparr>"

fun parse_while :: "CommandConfig \<Rightarrow> Option \<Rightarrow> ArgVec \<Rightarrow> nat \<Rightarrow> string \<Rightarrow> ArgVec \<times> nat \<times> string" where
  "parse_while cfg opt [] count val = ([], count, val)"
| "parse_while cfg opt (a # as) count val =
     (if \<not> isProperty cfg a then
        (if count < argSize opt then parse_while cfg opt as (count + 1) (val @ a @ '' '')
         else (a # as, count, val))
      else (a # as, count, val))"

definition pop_back :: "string \<Rightarrow> string" where
  "pop_back val = (if val \<noteq> [] then butlast val else val)"

fun parse_step ::
  "CommandConfig \<Rightarrow> ArgVec \<Rightarrow> (string \<rightharpoonup> string) \<Rightarrow> exn + (ArgVec \<times> (string \<rightharpoonup> string))" where
  "parse_step cfg [] tbl = Inr ([], tbl)"
| "parse_step cfg (a # rest) tbl =
     (if isCommand cfg a \<and> \<not> has cfg a then Inr (rest, tbl)
      else
        let key = (if isProperty cfg a then a else opt_name unk_opt);
            args1 = (if isProperty cfg a then rest else a # rest)
        in (case (if has cfg key then option cfg key else Inr unk_opt) of
              Inl e \<Rightarrow> Inl e
            | Inr opt \<Rightarrow>
                (case parse_while cfg opt args1 0 [] of
                   (args2, count, val) \<Rightarrow>
                     if count < argSize opt \<and> \<not> variadicSize opt
                     then Inl (runtime_error (''not enough arguments '' @ dq @ key @ dq))
                     else Inr (args2, tbl(key \<mapsto> pop_back val)))))"

partial_function (option) parse_loop ::
  "CommandConfig \<Rightarrow> ArgVec \<Rightarrow> (string \<rightharpoonup> string) \<Rightarrow> (exn + (string \<rightharpoonup> string)) option" where
  "parse_loop cfg args tbl =
     (if args = [] then Some (Inr tbl)
      else (case parse_step cfg args tbl of
              Inl e \<Rightarrow> Some (Inl e)
            | Inr (args', tbl') \<Rightarrow> parse_loop cfg args' tbl'))"

declare parse_loop.simps [code]

text \<open>
  The constructor \<open>CommandArgs(args, config)\<close> stores the configuration and parses into an
  initially empty table.
\<close>

record CommandArgs =
  m_argTable :: "string \<rightharpoonup> string"
  m_config :: CommandConfig

definition CommandArgs_ctor :: "ArgVec \<Rightarrow> CommandConfig \<Rightarrow> (exn + CommandArgs) option" where
  "CommandArgs_ctor args config =
     (case parse_loop config args Map.empty of
        None \<Rightarrow> None
      | Some (Inl e) \<Rightarrow> Some (Inl e)
      | Some (Inr tbl) \<Rightarrow> Some (Inr \<lparr>m_argTable = tbl, m_config = config\<rparr>))"

section \<open>CommandArgs: accessors\<close>

text \<open>
  \<open>getStrVec\<close> reads the stored string through a \<open>std::stringstream\<close> with
  \<open>std::getline(ss, val, ' ')\<close>.  \<open>getline\<close> returns the extracted field and the rest of the
  stream, or \<open>None\<close> when the extraction fails because nothing is left to read.
\<close>

definition getline :: "string \<Rightarrow> char \<Rightarrow> (string \<times> string) option" where
  "getline ss delim =
     (if ss = [] then None
      else Some (takeWhile (\<lambda>c. c \<noteq> delim) ss, drop 1 (dropWhile (\<lambda>c. c \<noteq> delim) ss)))"

function getStrVec_loop :: "string \<Rightarrow> ArgVec \<Rightarrow> ArgVec" where
  "getStrVec_loop ss res =
     (case getline ss (CHR '' '') of
        None \<Rightarrow> res
      | Some (val, ss') \<Rightarrow> getStrVec_loop ss' (res @ [val]))"
  by pat_completeness auto
termination
proof (relation "measure (\<lambda>(ss, res). length ss)")
  show "wf (measure (\<lambda>(ss, res). length ss))"
    by simp
next
  fix ss :: string and res :: ArgVec and x2 val ss'
  assume g: "getline ss (CHR '' '') = Some x2" and x2: "(val, ss') = x2"
  from g x2 have ne: "ss \<noteq> []" and ss': "ss' = drop 1 (dropWhile (\<lambda>c. c \<noteq> CHR '' '') ss)"
    by (auto simp: getline_def split: if_splits)
  have "length (dropWhile (\<lambda>c. c \<noteq> CHR '' '') ss) \<le> length ss"
    by (rule length_dropWhile_le)
  with ne ss' have "length ss' < length ss"
    by (cases ss) auto
  then show "((ss', res @ [val]), (ss, res)) \<in> measure (\<lambda>(ss, res). length ss)"
    by simp
qed

declare getStrVec_loop.simps [simp del]

definition getStrVec :: "CommandArgs \<Rightarrow> string \<Rightarrow> bool \<Rightarrow> exn + ArgVec" where
  "getStrVec a n throwEx =
     (case m_argTable a n of
        None \<Rightarrow> (if throwEx then Inl (key_not_found n) else Inr [])
      | Some s \<Rightarrow> Inr (getStrVec_loop s []))"

definition getString :: "CommandArgs \<Rightarrow> string \<Rightarrow> exn + string" where
  "getString a n = (case m_argTable a n of None \<Rightarrow> Inl (key_not_found n) | Some s \<Rightarrow> Inr s)"

definition getString_def :: "CommandArgs \<Rightarrow> string \<Rightarrow> string \<Rightarrow> string" where
  "getString_def a n defValue = (case m_argTable a n of None \<Rightarrow> defValue | Some s \<Rightarrow> s)"

definition CommandArgs_command :: "CommandArgs \<Rightarrow> string" where
  "CommandArgs_command a = cfg_name (m_config a)"

definition CommandArgs_has :: "CommandArgs \<Rightarrow> string \<Rightarrow> bool" where
  "CommandArgs_has a n = (m_argTable a n \<noteq> None)"

text \<open>
  \<open>std::stoul\<close> belongs to the C++ standard library.  It is modelled after its specification
  (\<open>strtoul\<close> with base 10): leading white space is skipped, one sign is accepted, the longest
  run of decimal digits is converted; no digit gives \<open>std::invalid_argument\<close>, a magnitude
  above \<open>ULONG_MAX\<close> gives \<open>std::out_of_range\<close>, a minus sign negates the value in
  \<open>unsigned long\<close> arithmetic.  \<open>unsigned long\<close> has 64 bits (LP64).  The \<open>what()\<close> text of
  the two exceptions is the one of libstdc++.  \<open>getUInt\<close> returns \<open>uint32_t\<close>: the
  conversion from \<open>unsigned long\<close> keeps the value modulo \<open>2 ^ 32\<close>.
\<close>

definition isspace :: "char \<Rightarrow> bool" where
  "isspace c = (c \<in> set [CHR 0x20, CHR 0x09, CHR 0x0A, CHR 0x0B, CHR 0x0C, CHR 0x0D])"

definition isdigit :: "char \<Rightarrow> bool" where
  "isdigit c = (c \<in> set ''0123456789'')"

definition digit_val :: "char \<Rightarrow> nat" where
  "digit_val c = of_char c - 48"

definition decimal :: "string \<Rightarrow> nat" where
  "decimal ds = foldl (\<lambda>acc c. 10 * acc + digit_val c) 0 ds"

definition ULONG_MAX :: nat where
  "ULONG_MAX = 2 ^ 64 - 1"

definition stoul :: "string \<Rightarrow> exn + nat" where
  "stoul str =
     (let s1 = dropWhile isspace str;
          neg = (case s1 of [] \<Rightarrow> False | c # r \<Rightarrow> c = CHR ''-'');
          s2 = (case s1 of [] \<Rightarrow> [] | c # r \<Rightarrow> if c = CHR ''-'' \<or> c = CHR ''+'' then r else s1);
          ds = takeWhile isdigit s2;
          v = decimal ds
      in if ds = [] then Inl (invalid_argument ''stoul'')
         else if ULONG_MAX < v then Inl (out_of_range ''stoul'')
         else Inr (if neg then (2 ^ 64 - v) mod 2 ^ 64 else v))"

definition getUInt :: "CommandArgs \<Rightarrow> string \<Rightarrow> exn + nat" where
  "getUInt a n =
     (case m_argTable a n of
        None \<Rightarrow> Inl (key_not_found n)
      | Some s \<Rightarrow> (case stoul s of Inl e \<Rightarrow> Inl e | Inr v \<Rightarrow> Inr (v mod 2 ^ 32)))"

definition getUInt_def :: "CommandArgs \<Rightarrow> string \<Rightarrow> nat \<Rightarrow> exn + nat" where
  "getUInt_def a n defValue =
     (case m_argTable a n of
        None \<Rightarrow> Inr defValue
      | Some s \<Rightarrow> (case stoul s of Inl e \<Rightarrow> Inl e | Inr v \<Rightarrow> Inr (v mod 2 ^ 32)))"

section \<open>CommandStatus, CommandCaller and Commander\<close>

datatype Status = ERROR | OK

record CommandStatus =
  st_name :: string
  status :: Status
  msg :: string

fun what :: "exn \<Rightarrow> string" where
  "what (runtime_error m) = m"
| "what (invalid_argument m) = m"
| "what (out_of_range m) = m"
| "what bad_function_call = ''bad_function_call''"
| "what (std_exception m) = m"
| "what non_std = []"

fun is_std_exception :: "exn \<Rightarrow> bool" where
  "is_std_exception non_std = False"
| "is_std_exception e = True"

text \<open>
  A handler is a function from the parsed arguments to a status, which may throw.
  \<open>CommandCaller\<close> holds either a plain function pointer (\<open>m_callback\<close>) or a bound method
  (\<open>m_invoke\<close>); a default-constructed caller holds neither.
\<close>

type_synonym Callback = "CommandArgs \<Rightarrow> exn + CommandStatus"

record CommandCaller =
  cc_config :: CommandConfig
  m_callback :: "Callback option"
  m_invoke :: "Callback option"

definition invoke :: "CommandCaller \<Rightarrow> ArgVec \<Rightarrow> (exn + CommandStatus) option" where
  "invoke caller args =
     (case CommandArgs_ctor args (cc_config caller) of
        None \<Rightarrow> None
      | Some (Inl e) \<Rightarrow> Some (Inl e)
      | Some (Inr cargs) \<Rightarrow>
          Some (case m_callback caller of
                  Some cb \<Rightarrow> cb cargs
                | None \<Rightarrow> (case m_invoke caller of
                             Some f \<Rightarrow> f cargs
                           | None \<Rightarrow> Inl bad_function_call)))"

text \<open>
  \<open>class StatusHandler { public: virtual void handle(const CommandStatus& stat) {}; };\<close>

  An object of the class \<open>StatusHandler\<close>, or of a class the host derives from it, is
  represented by the final overrider of its virtual function \<open>handle\<close>: a function of the
  status on the state \<open>'w\<close> of whatever the handler writes to (a log, a console).  The class has
  no data member.
  \<^item> \<open>StatusHandler_ctor\<close> is an object of the class \<open>StatusHandler\<close> itself, whose \<open>handle\<close> has
    the empty body.
  \<^item> \<open>StatusHandler_assign self other\<close> is the implicitly defined copy assignment
    \<open>self = other\<close> of the class: it assigns the data members of the base, of which there are
    none, and leaves the class of \<open>self\<close>, hence its overrider, as it was.
\<close>

record 'w StatusHandler =
  handle :: "CommandStatus \<Rightarrow> 'w \<Rightarrow> 'w"

definition StatusHandler_ctor :: "'w StatusHandler" where
  "StatusHandler_ctor = \<lparr>handle = (\<lambda>stat w. w)\<rparr>"

definition StatusHandler_assign :: "'w StatusHandler \<Rightarrow> 'w StatusHandler \<Rightarrow> 'w StatusHandler" where
  "StatusHandler_assign self other = self"

text \<open>
  \<open>Commander\<close> keeps the token vector, the registered callers and the member
  \<open>StatusHandler m_handler\<close>, an object held by value: the constructors of \<open>Commander\<close>
  default-construct it, and \<open>setHandler\<close> is the assignment \<open>m_handler = handler\<close>.

  What \<open>run\<close> does is observed as the sequence of its calls: \<open>Invoke command args\<close> for a
  call \<open>invokeCommand(command, args)\<close> and \<open>Handle st\<close> for a call \<open>m_handler.handle(st)\<close>.
  \<open>run_loop\<close> is the \<open>for\<close> loop inside the \<open>try\<close> block: it returns the calls so far and,
  when an exception left the block, the exception together with the value of the local
  variable \<open>command\<close> at that moment.  \<open>run\<close> adds the handler
  \<open>catch (const std::exception& ex)\<close>, which matches exactly the exceptions derived from
  \<open>std::exception\<close>; its second component is the exception that leaves \<open>run\<close>, if any.

  \<open>perform c ev w\<close> is the effect of one call on the state \<open>w\<close> the status handlers write to:
  a call \<open>m_handler.handle(st)\<close> runs the overrider of the member \<open>m_handler\<close>; the callbacks of
  the registered callers are functions of their arguments and leave that state alone.
  \<open>run_effect c args w\<close> is that state after \<open>run(args)\<close>.
\<close>

record 'w Commander =
  m_args :: ArgVec
  m_commands :: "string \<rightharpoonup> CommandCaller"
  m_handler :: "'w StatusHandler"

datatype event = Invoke string ArgVec | Handle CommandStatus

definition Commander_ctor :: "ArgVec \<Rightarrow> 'w Commander" where
  "Commander_ctor args = \<lparr>m_args = args, m_commands = Map.empty, m_handler = StatusHandler_ctor\<rparr>"

definition init :: "'w Commander \<Rightarrow> ArgVec \<Rightarrow> 'w Commander" where
  "init c args = c\<lparr>m_args := args\<rparr>"

definition appendCommand :: "'w Commander \<Rightarrow> CommandCaller \<Rightarrow> 'w Commander" where
  "appendCommand c caller = c\<lparr>m_commands := (m_commands c)(cfg_name (cc_config caller) \<mapsto> caller)\<rparr>"

definition setHandler :: "'w Commander \<Rightarrow> 'w StatusHandler \<Rightarrow> 'w Commander" where
  "setHandler c handler = c\<lparr>m_handler := StatusHandler_assign (m_handler c) handler\<rparr>"

definition Commander_isCommand :: "'w Commander \<Rightarrow> string \<Rightarrow> bool" where
  "Commander_isCommand c val = (m_commands c val \<noteq> None)"

definition invokeCommand :: "'w Commander \<Rightarrow> string \<Rightarrow> ArgVec \<Rightarrow> (exn + CommandStatus) option" where
  "invokeCommand c command args =
     (case m_commands c command of
        None \<Rightarrow> Some (Inl (out_of_range ''unordered_map::at''))
      | Some caller \<Rightarrow> invoke caller args)"

function run_loop :: "'w Commander \<Rightarrow> ArgVec \<Rightarrow> (event list \<times> (string \<times> exn) option) option" where
  "run_loop c [] = Some ([], None)"
| "run_loop c (a # rest) =
     (if Commander_isCommand c a then
        (let args = a # takeWhile (\<lambda>v. \<not> Commander_isCommand c v) rest in
         case invokeCommand c a args of
           None \<Rightarrow> None
         | Some (Inl e) \<Rightarrow> Some ([Invoke a args], Some (a, e))
         | Some (Inr st) \<Rightarrow>
             (case run_loop c (dropWhile (\<lambda>v. \<not> Commander_isCommand c v) rest) of
                None \<Rightarrow> None
              | Some (evs, thrown) \<Rightarrow> Some (Invoke a args # Handle st # evs, thrown)))
      else Some ([Handle \<lparr>st_name = a, status = ERROR, msg = ''not a command''\<rparr>], None))"
  by pat_completeness auto
termination
proof (relation "measure (\<lambda>(c, args). length args)")
  show "wf (measure (\<lambda>(c, args). length args))"
    by simp
next
  fix c :: "'w Commander" and a :: string and rest :: ArgVec
  have "length (dropWhile (\<lambda>v. \<not> Commander_isCommand c v) rest) \<le> length rest"
    by (rule length_dropWhile_le)
  then show "((c, dropWhile (\<lambda>v. \<not> Commander_isCommand c v) rest), (c, a # rest))
      \<in> measure (\<lambda>(c, args). length args)"
    by simp
qed

definition run :: "'w Commander \<Rightarrow> (event list \<times> exn option) option" where
  "run c =
     (case run_loop c (m_args c) of
        None \<Rightarrow> None
      | Some (evs, None) \<Rightarrow> Some (evs, None)
      | Some (evs, Some (command, ex)) \<Rightarrow>
          if is_std_exception ex
          then Some (evs @ [Handle \<lparr>st_name = command, status = ERROR, msg = what ex\<rparr>], None)
          else Some (evs, Some ex))"

definition run_args :: "'w Commander \<Rightarrow> ArgVec \<Rightarrow> (event list \<times> exn option) option" where
  "run_args c args = run (init c args)"

fun perform :: "'w Commander \<Rightarrow> event \<Rightarrow> 'w \<Rightarrow> 'w" where
  "perform c (Handle st) w = handle (m_handler c) st w"
| "perform c (Invoke command args) w = w"

definition run_effect :: "'w Commander \<Rightarrow> ArgVec \<Rightarrow> 'w \<Rightarrow> 'w option" where
  "run_effect c args w = map_option (\<lambda>(evs, esc). fold (perform c) evs w) (run_args c args)"

section \<open>Notions of the specification\<close>

text \<open>
  \<open>joined vals\<close> is the string the parser stores for the consumed value tokens \<open>vals\<close>:
  each token followed by a space, the last space removed.
\<close>

definition joined :: "ArgVec \<Rightarrow> string" where
  "joined vals = pop_back (concat (map (\<lambda>a. a @ '' '') vals))"

declare parse_while.simps [simp del] parse_step.simps [simp del]

text \<open>
  \<open>segment c seg\<close>: the tokens \<open>seg\<close> are the name of a registered command followed by tokens
  none of which is the name of a registered command.  \<open>segment_end c post\<close>: a segment cannot
  be extended into \<open>post\<close>, which is empty or begins with the name of a registered command.
  \<open>returned c segs\<close>: \<open>segs\<close> lists segments, each with the status that the invocation of its
  command on it returns; \<open>completed segs\<close> are the calls \<open>run\<close> makes for them.
\<close>

definition segment :: "'w Commander \<Rightarrow> ArgVec \<Rightarrow> bool" where
  "segment c seg =
     (seg \<noteq> [] \<and> Commander_isCommand c (hd seg) \<and> list_all (\<lambda>v. \<not> Commander_isCommand c v) (tl seg))"

definition segment_end :: "'w Commander \<Rightarrow> ArgVec \<Rightarrow> bool" where
  "segment_end c post = (post = [] \<or> Commander_isCommand c (hd post))"

definition returned :: "'w Commander \<Rightarrow> (ArgVec \<times> CommandStatus) list \<Rightarrow> bool" where
  "returned c segs =
     list_all (\<lambda>(seg, st). segment c seg \<and> invokeCommand c (hd seg) seg = Some (Inr st)) segs"

definition completed :: "(ArgVec \<times> CommandStatus) list \<Rightarrow> event list" where
  "completed segs = concat (map (\<lambda>(seg, st). [Invoke (hd seg) seg, Handle st]) segs)"

text \<open>
  \<open>arity_satisfied cfg T\<close>: every occurrence in \<open>T\<close> of an option of \<open>cfg\<close> that is not variadic
  is followed by at least its declared number of tokens that are not options of \<open>cfg\<close>.
\<close>

fun arity_satisfied :: "CommandConfig \<Rightarrow> ArgVec \<Rightarrow> bool" where
  "arity_satisfied cfg [] = True"
| "arity_satisfied cfg (t # ts) =
     ((case m_options cfg t of
         None \<Rightarrow> True
       | Some opt \<Rightarrow> variadicSize opt \<or> argSize opt \<le> length (takeWhile (\<lambda>v. \<not> has cfg v) ts))
      \<and> arity_satisfied cfg ts)"

text \<open>
  \<open>valid_unsigned s\<close>: the text \<open>s\<close> is an unsigned integer in decimal notation, that is a
  non-empty string of digits.
\<close>

definition valid_unsigned :: "string \<Rightarrow> bool" where
  "valid_unsigned s = (s \<noteq> [] \<and> list_all isdigit s)"

section \<open>Sample configurations\<close>

text \<open>
  \<open>cfg_cmd\<close> is a command \<open>cmd\<close> with an option \<open>-p\<close> taking exactly two values, a flag
  \<open>-v\<close> taking none and a variadic option \<open>-l\<close> taking up to three.  \<open>cfg_self\<close> is a
  command whose name is also one of its options.  \<open>cfg_unknown\<close> and \<open>cfg_hang\<close> declare an
  option under the name of the sentinel.
\<close>

definition opt_pair :: Option where
  "opt_pair = \<lparr>opt_name = ''-p'', variadicSize = False, argSize = 2\<rparr>"

definition opt_flag :: Option where
  "opt_flag = \<lparr>opt_name = ''-v'', variadicSize = False, argSize = 0\<rparr>"

definition opt_list :: Option where
  "opt_list = \<lparr>opt_name = ''-l'', variadicSize = True, argSize = 3\<rparr>"

definition cfg_cmd :: CommandConfig where
  "cfg_cmd = CommandConfig_append (CommandConfig_append (CommandConfig_append
     \<lparr>cfg_name = ''cmd'', m_options = Map.empty\<rparr> opt_pair) opt_flag) opt_list"

definition cfg_self :: CommandConfig where
  "cfg_self = CommandConfig_append \<lparr>cfg_name = ''-p'', m_options = Map.empty\<rparr> opt_pair"

definition cfg_unknown :: CommandConfig where
  "cfg_unknown = CommandConfig_append \<lparr>cfg_name = ''cmd'', m_options = Map.empty\<rparr>
     \<lparr>opt_name = ''unknown'', variadicSize = False, argSize = 2\<rparr>"

definition cfg_hang :: CommandConfig where
  "cfg_hang = CommandConfig_append \<lparr>cfg_name = ''cmd'', m_options = Map.empty\<rparr>
     \<lparr>opt_name = ''unknown'', variadicSize = False, argSize = 0\<rparr>"

section \<open>Sample handlers and a sample Commander\<close>

text \<open>
  \<open>callback_ok\<close> reports the loose values of its segment; \<open>callback_uint\<close> reads the option
  \<open>-n\<close> with \<open>getUInt\<close> and lets its exception pass; \<open>callback_throw\<close> throws a value that
  is not a \<open>std::exception\<close>.  \<open>commander0\<close> registers all three, \<open>commander1\<close> only the
  first two; the state their status handler could write to is a log of statuses.
  \<open>recorder\<close> is a handler of a class derived from \<open>StatusHandler\<close> whose \<open>handle\<close> appends
  the status to that log.
\<close>

definition callback_ok :: Callback where
  "callback_ok cargs =
     Inr \<lparr>st_name = CommandArgs_command cargs, status = OK, msg = getString_def cargs ''unknown'' []\<rparr>"

definition callback_uint :: Callback where
  "callback_uint cargs =
     (case getUInt cargs ''-n'' of
        Inl e \<Rightarrow> Inl e
      | Inr v \<Rightarrow> Inr \<lparr>st_name = CommandArgs_command cargs, status = OK, msg = []\<rparr>)"

definition callback_throw :: Callback where
  "callback_throw cargs = Inl non_std"

definition cfg_go :: CommandConfig where
  "cfg_go = CommandConfig_append \<lparr>cfg_name = ''go'', m_options = Map.empty\<rparr>
     \<lparr>opt_name = ''-n'', variadicSize = False, argSize = 1\<rparr>"

definition caller_cmd :: CommandCaller where
  "caller_cmd = \<lparr>cc_config = cfg_cmd, m_callback = Some callback_ok, m_invoke = None\<rparr>"

definition caller_go :: CommandCaller where
  "caller_go = \<lparr>cc_config = cfg_go, m_callback = None, m_invoke = Some callback_uint\<rparr>"

definition caller_bad :: CommandCaller where
  "caller_bad = \<lparr>cc_config = \<lparr>cfg_name = ''bad'', m_options = Map.empty\<rparr>,
     m_callback = Some callback_throw, m_invoke = None\<rparr>"

definition commander0 :: "CommandStatus list Commander" where
  "commander0 = appendCommand (appendCommand (appendCommand
     (Commander_ctor []) caller_cmd) caller_go) caller_bad"

definition commander1 :: "CommandStatus list Commander" where
  "commander1 = appendCommand (appendCommand (Commander_ctor []) caller_cmd) caller_go"

definition recorder :: "CommandStatus list StatusHandler" where
  "recorder = \<lparr>handle = (\<lambda>stat log. log @ [stat])\<rparr>"

section \<open>The scan of one segment\<close>

text \<open>
  Unfolding the loop once, and what the inner loop consumes.
\<close>

lemma parse_loop_Nil: "parse_loop cfg [] tbl = Some (Inr tbl)"
  by (subst parse_loop.simps) simp

lemma parse_loop_Cons:
  "parse_loop cfg (a # rest) tbl =
     (case parse_step cfg (a # rest) tbl of
        Inl e \<Rightarrow> Some (Inl e)
      | Inr (args', tbl') \<Rightarrow> parse_loop cfg args' tbl')"
  by (subst parse_loop.simps) simp

lemma parse_while_values:
  assumes "\<forall>v\<in>set vals. \<not> has cfg v"
    and "count + length vals \<le> argSize opt"
    and "post = [] \<or> has cfg (hd post) \<or> count + length vals = argSize opt"
  shows "parse_while cfg opt (vals @ post) count val =
           (post, count + length vals, val @ concat (map (\<lambda>a. a @ '' '') vals))"
  using assms
proof (induction vals arbitrary: count val)
  case Nil
  then show ?case
    by (cases post) (auto simp: isProperty_def parse_while.simps)
next
  case (Cons v vals)
  from Cons.prems have "\<not> isProperty cfg v" and "count < argSize opt"
    by (auto simp: isProperty_def)
  moreover have "parse_while cfg opt (vals @ post) (count + 1) (val @ v @ '' '') =
      (post, (count + 1) + length vals, (val @ v @ '' '') @ concat (map (\<lambda>a. a @ '' '') vals))"
    using Cons.prems by (intro Cons.IH) auto
  ultimately show ?case
    by (simp add: parse_while.simps)
qed

lemma parse_while_append:
  assumes "has cfg p"
  shows "parse_while cfg opt (xs @ p # rest) count val =
           (case parse_while cfg opt xs count val of (r, c, v) \<Rightarrow> (r @ p # rest, c, v))"
  using assms by (induction xs arbitrary: count val) (auto simp: isProperty_def parse_while.simps)

lemma parse_while_closed:
  "parse_while cfg opt xs count val =
     (let n = min (length (takeWhile (\<lambda>a. \<not> has cfg a) xs)) (argSize opt - count)
      in (drop n xs, count + n, val @ concat (map (\<lambda>a. a @ '' '') (take n xs))))"
proof (induction xs arbitrary: count val)
  case Nil
  show ?case by (simp add: parse_while.simps)
next
  case (Cons x xs)
  show ?case
  proof (cases "\<not> has cfg x \<and> count < argSize opt")
    case True
    define n' where "n' = min (length (takeWhile (\<lambda>a. \<not> has cfg a) xs)) (argSize opt - (count + 1))"
    have n: "min (length (takeWhile (\<lambda>a. \<not> has cfg a) (x # xs))) (argSize opt - count) = Suc n'"
      using True unfolding n'_def by simp arith
    have "parse_while cfg opt (x # xs) count val =
        parse_while cfg opt xs (count + 1) (val @ x @ '' '')"
      using True by (simp add: isProperty_def parse_while.simps)
    also have "\<dots> = (drop n' xs, (count + 1) + n',
        (val @ x @ '' '') @ concat (map (\<lambda>a. a @ '' '') (take n' xs)))"
      unfolding Cons.IH Let_def n'_def ..
    finally show ?thesis
      unfolding Let_def n by simp
  next
    case False
    then show ?thesis
      by (auto simp: isProperty_def Let_def parse_while.simps)
  qed
qed

lemma parse_while_consumed:
  assumes "parse_while cfg opt xs count val = (r, c, v)"
  shows "\<exists>ys. xs = ys @ r \<and> (\<forall>t\<in>set ys. \<not> has cfg t) \<and> c = count + length ys
            \<and> length ys = min (length (takeWhile (\<lambda>a. \<not> has cfg a) xs)) (argSize opt - count)"
proof -
  define n where "n = min (length (takeWhile (\<lambda>a. \<not> has cfg a) xs)) (argSize opt - count)"
  from assms have r: "r = drop n xs" and c: "c = count + n"
    unfolding parse_while_closed Let_def n_def by simp_all
  have n: "n \<le> length (takeWhile (\<lambda>a. \<not> has cfg a) xs)"
    by (simp add: n_def)
  then have "n \<le> length xs"
    using length_takeWhile_le [of "\<lambda>a. \<not> has cfg a" xs] by simp
  moreover have "\<forall>t\<in>set (take n xs). \<not> has cfg t"
  proof
    fix t assume t: "t \<in> set (take n xs)"
    have "take n (takeWhile (\<lambda>a. \<not> has cfg a) xs @ dropWhile (\<lambda>a. \<not> has cfg a) xs) =
        take n (takeWhile (\<lambda>a. \<not> has cfg a) xs)"
      using n by (simp del: takeWhile_dropWhile_id)
    then have "take n xs = take n (takeWhile (\<lambda>a. \<not> has cfg a) xs)"
      by simp
    with t have "t \<in> set (take n (takeWhile (\<lambda>a. \<not> has cfg a) xs))"
      by simp
    then have "t \<in> set (takeWhile (\<lambda>a. \<not> has cfg a) xs)"
      by (rule in_set_takeD)
    then show "\<not> has cfg t"
      by (rule set_takeWhileD [THEN conjunct2])
  qed
  ultimately show ?thesis
    using r c unfolding n_def [symmetric] by (intro exI [of _ "take n xs"]) simp
qed

text \<open>
  One iteration of the outer loop, by the kind of token it starts at: the command's own name,
  a declared option, or any other token.
\<close>

lemma parse_step_skip:
  assumes "\<not> has cfg (cfg_name cfg)"
  shows "parse_step cfg (cfg_name cfg # rest) tbl = Inr (rest, tbl)"
  using assms by (simp add: parse_step.simps isCommand_def)

lemma parse_step_option:
  assumes "m_options cfg k = Some opt"
    and "\<forall>v\<in>set vals. \<not> has cfg v"
    and "length vals \<le> argSize opt"
    and "post = [] \<or> has cfg (hd post) \<or> length vals = argSize opt"
  shows "parse_step cfg (k # vals @ post) tbl =
           (if length vals < argSize opt \<and> \<not> variadicSize opt
            then Inl (runtime_error (''not enough arguments '' @ dq @ k @ dq))
            else Inr (post, tbl(k \<mapsto> joined vals)))"
proof -
  have k: "has cfg k"
    using assms(1) by (simp add: has_def)
  have w: "parse_while cfg opt (vals @ post) 0 [] =
      (post, length vals, concat (map (\<lambda>a. a @ '' '') vals))"
    using parse_while_values [of vals cfg 0 opt post "[]"] assms by simp
  show ?thesis
    by (simp add: parse_step.simps k isProperty_def option_def assms(1) w joined_def)
qed

lemma parse_step_unknown:
  assumes "\<not> has cfg a" and "a \<noteq> cfg_name cfg" and "\<not> has cfg ''unknown''"
    and "\<forall>v\<in>set vals. \<not> has cfg v"
    and "Suc (length vals) \<le> SIZE_MAX"
    and "post = [] \<or> has cfg (hd post)"
  shows "parse_step cfg (a # vals @ post) tbl = Inr (post, tbl(''unknown'' \<mapsto> joined (a # vals)))"
proof -
  have w: "parse_while cfg unk_opt ((a # vals) @ post) 0 [] =
      (post, 0 + length (a # vals), [] @ concat (map (\<lambda>a. a @ '' '') (a # vals)))"
    using assms by (intro parse_while_values) (auto simp: unk_opt_def)
  show ?thesis
    using assms(1-3) w
    by (simp add: parse_step.simps isCommand_def isProperty_def unk_opt_def joined_def)
qed

lemma parse_step_property:
  assumes "m_options cfg a = Some opt"
    and "parse_while cfg opt rest 0 [] = (args2, count, val)"
  shows "parse_step cfg (a # rest) tbl =
     (if count < argSize opt \<and> \<not> variadicSize opt
      then Inl (runtime_error (''not enough arguments '' @ dq @ a @ dq))
      else Inr (args2, tbl(a \<mapsto> pop_back val)))"
  using assms by (simp add: parse_step.simps Let_def isProperty_def has_def option_def)

lemma parse_step_other:
  assumes "\<not> has cfg a" and "a \<noteq> cfg_name cfg"
    and "opt = (case m_options cfg ''unknown'' of None \<Rightarrow> unk_opt | Some declared \<Rightarrow> declared)"
    and "parse_while cfg opt (a # rest) 0 [] = (args2, count, val)"
  shows "parse_step cfg (a # rest) tbl =
     (if count < argSize opt \<and> \<not> variadicSize opt
      then Inl (runtime_error (''not enough arguments '' @ dq @ ''unknown'' @ dq))
      else Inr (args2, tbl(''unknown'' \<mapsto> pop_back val)))"
  using assms
  by (simp add: parse_step.simps Let_def isProperty_def isCommand_def has_def option_def unk_opt_def
           split: option.splits)

lemma parse_step_append:
  assumes "has cfg p" and "args \<noteq> []"
  shows "parse_step cfg (args @ p # rest) tbl =
           (case parse_step cfg args tbl of
              Inl e \<Rightarrow> Inl e
            | Inr (args', tbl') \<Rightarrow> Inr (args' @ p # rest, tbl'))"
proof -
  from assms(2) obtain a as where args: "args = a # as"
    by (cases args) auto
  show ?thesis
  proof (cases "isProperty cfg a")
    case True
    then show ?thesis
      using assms(1) unfolding args
      by (simp add: parse_step.simps Let_def parse_while_append isProperty_def
               split: sum.splits prod.splits)
  next
    case False
    have pw: "\<And>opt. parse_while cfg opt (a # as @ p # rest) 0 [] =
        (case parse_while cfg opt (a # as) 0 [] of (r, c, v) \<Rightarrow> (r @ p # rest, c, v))"
      using parse_while_append [OF assms(1), of _ "a # as" rest 0 "[]"]
      by simp
    from False show ?thesis
      unfolding args
      by (auto simp add: parse_step.simps Let_def isProperty_def pw
               split: sum.splits prod.splits)
  qed
qed

lemma parse_step_consumed:
  assumes "parse_step cfg args tbl = Inr (args', tbl')" and "args \<noteq> []"
  shows "\<exists>ys. args = ys @ args' \<and> dom tbl \<subseteq> dom tbl'
            \<and> (\<forall>t\<in>set ys. has cfg t \<longrightarrow> t \<in> dom tbl')
            \<and> (\<forall>k. k \<notin> set ys \<longrightarrow> k \<noteq> ''unknown'' \<longrightarrow> tbl' k = tbl k)
            \<and> (\<not> has cfg ''unknown'' \<longrightarrow> ys \<noteq> [])"
proof -
  from assms(2) obtain a rest where args: "args = a # rest"
    by (cases args) auto
  consider (skip) "a = cfg_name cfg" "\<not> has cfg a"
    | (property) "has cfg a"
    | (other) "a \<noteq> cfg_name cfg" "\<not> has cfg a"
    by blast
  then show ?thesis
  proof cases
    case skip
    with assms(1) have "args' = rest" and "tbl' = tbl"
      by (simp_all add: args parse_step_skip)
    with skip show ?thesis
      by (intro exI [of _ "[a]"]) (simp add: args)
  next
    case property
    then obtain opt where opt: "m_options cfg a = Some opt"
      by (auto simp: has_def)
    obtain args2 count val where w: "parse_while cfg opt rest 0 [] = (args2, count, val)"
      by (cases "parse_while cfg opt rest 0 []")
    from assms(1) have res: "args' = args2" "tbl' = tbl(a \<mapsto> pop_back val)"
      unfolding args parse_step_property [OF opt w] by (simp_all split: if_splits)
    from parse_while_consumed [OF w] obtain ys where
      ys: "rest = ys @ args2" "\<forall>t\<in>set ys. \<not> has cfg t"
      by blast
    have "args = (a # ys) @ args'"
      by (simp add: args ys(1) res(1))
    moreover have "dom tbl \<subseteq> dom tbl'"
      by (auto simp: res(2))
    moreover have "\<forall>t\<in>set (a # ys). has cfg t \<longrightarrow> t \<in> dom tbl'"
      using ys(2) by (auto simp: res(2))
    moreover have "\<forall>k. k \<notin> set (a # ys) \<longrightarrow> k \<noteq> ''unknown'' \<longrightarrow> tbl' k = tbl k"
      by (auto simp: res(2))
    ultimately show ?thesis
      by (intro exI [of _ "a # ys"]) simp
  next
    case other
    define opt where "opt = (case m_options cfg ''unknown'' of None \<Rightarrow> unk_opt | Some declared \<Rightarrow> declared)"
    obtain args2 count val where w: "parse_while cfg opt (a # rest) 0 [] = (args2, count, val)"
      by (cases "parse_while cfg opt (a # rest) 0 []")
    from assms(1) have res: "args' = args2" "tbl' = tbl(''unknown'' \<mapsto> pop_back val)"
      unfolding args parse_step_other [OF other(2) other(1) opt_def w] by (simp_all split: if_splits)
    from parse_while_consumed [OF w] obtain ys where
      ys: "a # rest = ys @ args2" "\<forall>t\<in>set ys. \<not> has cfg t"
        "length ys = min (length (takeWhile (\<lambda>a. \<not> has cfg a) (a # rest))) (argSize opt - 0)"
      by blast
    have "args = ys @ args'"
      by (simp add: args ys(1) res(1))
    moreover have "dom tbl \<subseteq> dom tbl'"
      by (auto simp: res(2))
    moreover have "\<forall>t\<in>set ys. has cfg t \<longrightarrow> t \<in> dom tbl'"
      using ys(2) by auto
    moreover have "\<forall>k. k \<notin> set ys \<longrightarrow> k \<noteq> ''unknown'' \<longrightarrow> tbl' k = tbl k"
      by (auto simp: res(2))
    moreover have "ys \<noteq> []" if "\<not> has cfg ''unknown''"
    proof -
      from that have "opt = unk_opt"
        by (simp add: opt_def has_def)
      then have "length ys = min (Suc (length (takeWhile (\<lambda>a. \<not> has cfg a) rest))) SIZE_MAX"
        using ys(3) other(2) by (simp add: unk_opt_def)
      then have "length ys \<noteq> 0"
        by (simp add: SIZE_MAX_def)
      then show ?thesis
        by simp
    qed
    ultimately show ?thesis
      by (intro exI [of _ ys]) simp
  qed
qed

lemma parse_step_error:
  assumes "parse_step cfg args tbl = Inl e"
  shows "\<exists>m. e = runtime_error m"
proof (cases args)
  case Nil
  with assms show ?thesis
    by (simp add: parse_step.simps)
next
  case (Cons a rest)
  with assms show ?thesis
    by (auto simp: parse_step.simps Let_def option_def has_def key_not_found_def
             split: if_splits sum.splits prod.splits option.splits)
qed

text \<open>
  The whole scan.  Tokens in front of an option token are parsed independently of what follows
  that token; the table only grows; an error is always a \<open>std::runtime_error\<close>; and the scan
  returns whenever the configuration declares no option under the sentinel's name.
\<close>

lemma parse_loop_append:
  assumes "parse_loop cfg pre tbl = Some res" and "has cfg p"
  shows "parse_loop cfg (pre @ p # rest) tbl =
           (case res of Inl e \<Rightarrow> Some (Inl e) | Inr tbl' \<Rightarrow> parse_loop cfg (p # rest) tbl')"
proof -
  have "has cfg p \<longrightarrow> parse_loop cfg (pre @ p # rest) tbl =
           (case res of Inl e \<Rightarrow> Some (Inl e) | Inr tbl' \<Rightarrow> parse_loop cfg (p # rest) tbl')"
  proof (rule parse_loop.raw_induct [where P = "\<lambda>cfg pre tbl res. has cfg p \<longrightarrow>
           parse_loop cfg (pre @ p # rest) tbl =
           (case res of Inl e \<Rightarrow> Some (Inl e) | Inr tbl' \<Rightarrow> parse_loop cfg (p # rest) tbl')",
         OF _ assms(1)])
    fix loop cfg args tbl res
    assume IH: "\<And>c a t y. loop c a t = Some y \<Longrightarrow> has c p \<longrightarrow> parse_loop c (a @ p # rest) t =
           (case y of Inl e \<Rightarrow> Some (Inl e) | Inr tbl' \<Rightarrow> parse_loop c (p # rest) tbl')"
      and step: "(if args = [] then Some (Inr tbl)
          else (case parse_step cfg args tbl of
                  Inl e \<Rightarrow> Some (Inl e)
                | Inr (args', tbl') \<Rightarrow> loop cfg args' tbl')) = Some res"
    show "has cfg p \<longrightarrow> parse_loop cfg (args @ p # rest) tbl =
           (case res of Inl e \<Rightarrow> Some (Inl e) | Inr tbl' \<Rightarrow> parse_loop cfg (p # rest) tbl')"
    proof
      assume p: "has cfg p"
      show "parse_loop cfg (args @ p # rest) tbl =
           (case res of Inl e \<Rightarrow> Some (Inl e) | Inr tbl' \<Rightarrow> parse_loop cfg (p # rest) tbl')"
      proof (cases "args = []")
        case True
        with step show ?thesis by auto
      next
        case False
        show ?thesis
        proof (cases "parse_step cfg args tbl")
          case (Inl e)
          with step False p show ?thesis
            by (subst parse_loop.simps) (auto simp: parse_step_append)
        next
          case (Inr st)
          obtain args' tbl' where st: "st = (args', tbl')"
            by (cases st)
          from step False Inr st have "loop cfg args' tbl' = Some res"
            by simp
          from IH [OF this] p have "parse_loop cfg (args' @ p # rest) tbl' =
             (case res of Inl e \<Rightarrow> Some (Inl e) | Inr tbl' \<Rightarrow> parse_loop cfg (p # rest) tbl')"
            by simp
          with False p Inr st show ?thesis
            by (subst parse_loop.simps) (simp add: parse_step_append)
        qed
      qed
    qed
  qed
  with assms(2) show ?thesis
    by simp
qed

lemma parse_loop_entries:
  assumes "parse_loop cfg args tbl = Some (Inr tbl')"
  shows "dom tbl \<subseteq> dom tbl' \<and> (\<forall>t\<in>set args. has cfg t \<longrightarrow> t \<in> dom tbl')
           \<and> (\<forall>k. k \<notin> set args \<longrightarrow> k \<noteq> ''unknown'' \<longrightarrow> tbl' k = tbl k)"
proof -
  let ?Q = "\<lambda>cfg args tbl tbl'. dom tbl \<subseteq> dom tbl' \<and> (\<forall>t\<in>set args. has cfg t \<longrightarrow> t \<in> dom tbl')
           \<and> (\<forall>k. k \<notin> set args \<longrightarrow> k \<noteq> ''unknown'' \<longrightarrow> tbl' k = tbl k)"
  have "\<forall>t'. (Inr tbl' :: exn + (string \<rightharpoonup> string)) = Inr t' \<longrightarrow> ?Q cfg args tbl t'"
  proof (rule parse_loop.raw_induct [where P = "\<lambda>cfg args tbl res. \<forall>t'. res = Inr t' \<longrightarrow> ?Q cfg args tbl t'",
        OF _ assms])
    fix loop cfg args tbl res
    assume IH: "\<And>c a t y. loop c a t = Some y \<Longrightarrow> \<forall>t'. y = Inr t' \<longrightarrow> ?Q c a t t'"
      and step: "(if args = [] then Some (Inr tbl)
          else (case parse_step cfg args tbl of
                  Inl e \<Rightarrow> Some (Inl e)
                | Inr (args', tbl') \<Rightarrow> loop cfg args' tbl')) = Some res"
    show "\<forall>t'. res = Inr t' \<longrightarrow> ?Q cfg args tbl t'"
    proof (intro allI impI)
      fix t' assume res: "res = Inr t'"
      show "?Q cfg args tbl t'"
      proof (cases "args = []")
        case True
        with step res show ?thesis by auto
      next
        case False
        with step res obtain args1 tbl1 where
          st: "parse_step cfg args tbl = Inr (args1, tbl1)" and l: "loop cfg args1 tbl1 = Some (Inr t')"
          by (cases "parse_step cfg args tbl") auto
        from IH [OF l] have q: "?Q cfg args1 tbl1 t'"
          by simp
        from parse_step_consumed [OF st False] obtain ys where
          ys: "args = ys @ args1" "dom tbl \<subseteq> dom tbl1" "\<forall>t\<in>set ys. has cfg t \<longrightarrow> t \<in> dom tbl1"
            "\<forall>k. k \<notin> set ys \<longrightarrow> k \<noteq> ''unknown'' \<longrightarrow> tbl1 k = tbl k"
          by blast
        have "dom tbl \<subseteq> dom t'"
          using ys(2) q by blast
        moreover have "\<forall>t\<in>set args. has cfg t \<longrightarrow> t \<in> dom t'"
          using ys(1,3) q by auto
        moreover have "\<forall>k. k \<notin> set args \<longrightarrow> k \<noteq> ''unknown'' \<longrightarrow> t' k = tbl k"
          using ys(1,4) q by auto
        ultimately show ?thesis
          by blast
      qed
    qed
  qed
  then show ?thesis
    by simp
qed

lemma parse_loop_error:
  assumes "parse_loop cfg args tbl = Some (Inl e)"
  shows "\<exists>m. e = runtime_error m"
proof -
  have "\<forall>e'. (Inl e :: exn + (string \<rightharpoonup> string)) = Inl e' \<longrightarrow> (\<exists>m. e' = runtime_error m)"
  proof (rule parse_loop.raw_induct [where P = "\<lambda>cfg args tbl res. \<forall>e'. res = Inl e' \<longrightarrow> (\<exists>m. e' = runtime_error m)",
        OF _ assms])
    fix loop cfg args tbl res
    assume IH: "\<And>c a t y. loop c a t = Some y \<Longrightarrow> \<forall>e'. y = Inl e' \<longrightarrow> (\<exists>m. e' = runtime_error m)"
      and step: "(if args = [] then Some (Inr tbl)
          else (case parse_step cfg args tbl of
                  Inl e \<Rightarrow> Some (Inl e)
                | Inr (args', tbl') \<Rightarrow> loop cfg args' tbl')) = Some res"
    show "\<forall>e'. res = Inl e' \<longrightarrow> (\<exists>m. e' = runtime_error m)"
    proof (cases "args = []")
      case True
      with step show ?thesis by auto
    next
      case False
      show ?thesis
      proof (cases "parse_step cfg args tbl")
        case (Inl x)
        with step False parse_step_error [OF Inl] show ?thesis
          by auto
      next
        case (Inr st)
        with step False IH show ?thesis
          by (cases st) auto
      qed
    qed
  qed
  then show ?thesis
    by simp
qed

lemma parse_loop_terminates:
  assumes "\<not> has cfg ''unknown''"
  shows "\<exists>res. parse_loop cfg args tbl = Some res"
proof (induction "length args" arbitrary: args tbl rule: less_induct)
  case less
  show ?case
  proof (cases "args = []")
    case True
    then show ?thesis
      by (simp add: parse_loop_Nil)
  next
    case False
    show ?thesis
    proof (cases "parse_step cfg args tbl")
      case (Inl e)
      with False show ?thesis
        by (subst parse_loop.simps) simp
    next
      case (Inr st)
      obtain args1 tbl1 where st: "st = (args1, tbl1)"
        by (cases st)
      from parse_step_consumed [OF Inr [unfolded st] False] assms
      obtain ys where "args = ys @ args1" "ys \<noteq> []"
        by blast
      then have "length args1 < length args"
        by simp
      from less [OF this] obtain res where "parse_loop cfg args1 tbl1 = Some res"
        by blast
      with False Inr st show ?thesis
        by (subst parse_loop.simps) simp
    qed
  qed
qed

lemma arity_satisfied_suffix:
  "arity_satisfied cfg (ys @ zs) \<Longrightarrow> arity_satisfied cfg zs"
  by (induction ys) auto

lemma parse_step_arity_ok:
  assumes "\<not> has cfg ''unknown''" and "arity_satisfied cfg args" and "args \<noteq> []"
  shows "\<exists>st. parse_step cfg args tbl = Inr st"
proof -
  from assms(3) obtain a rest where args: "args = a # rest"
    by (cases args) auto
  consider (skip) "a = cfg_name cfg" "\<not> has cfg a"
    | (property) "has cfg a"
    | (other) "a \<noteq> cfg_name cfg" "\<not> has cfg a"
    by blast
  then show ?thesis
  proof cases
    case skip
    then show ?thesis
      by (simp add: args parse_step_skip)
  next
    case property
    then obtain opt where opt: "m_options cfg a = Some opt"
      by (auto simp: has_def)
    obtain args2 count val where w: "parse_while cfg opt rest 0 [] = (args2, count, val)"
      by (cases "parse_while cfg opt rest 0 []")
    from parse_while_consumed [OF w] obtain ys where
      ys: "rest = ys @ args2" "\<forall>t\<in>set ys. \<not> has cfg t" "count = 0 + length ys"
        "length ys = min (length (takeWhile (\<lambda>a. \<not> has cfg a) rest)) (argSize opt - 0)"
      by blast
    from assms(2) opt have "variadicSize opt \<or> argSize opt \<le> length (takeWhile (\<lambda>v. \<not> has cfg v) rest)"
      by (simp add: args)
    with ys(3,4) have "\<not> (count < argSize opt \<and> \<not> variadicSize opt)"
      by auto
    then show ?thesis
      unfolding args parse_step_property [OF opt w] by simp
  next
    case other
    define opt where "opt = (case m_options cfg ''unknown'' of None \<Rightarrow> unk_opt | Some declared \<Rightarrow> declared)"
    obtain args2 count val where w: "parse_while cfg opt (a # rest) 0 [] = (args2, count, val)"
      by (cases "parse_while cfg opt (a # rest) 0 []")
    from assms(1) have "variadicSize opt"
      by (simp add: opt_def has_def unk_opt_def)
    then show ?thesis
      unfolding args parse_step_other [OF other(2) other(1) opt_def w] by simp
  qed
qed

lemma parse_loop_total:
  assumes "\<not> has cfg ''unknown''" and "arity_satisfied cfg args"
  shows "\<exists>tbl'. parse_loop cfg args tbl = Some (Inr tbl')"
  using assms(2)
proof (induction "length args" arbitrary: args tbl rule: less_induct)
  case less
  show ?case
  proof (cases "args = []")
    case True
    then show ?thesis
      by (simp add: parse_loop_Nil)
  next
    case False
    from parse_step_arity_ok [OF assms(1) less.prems False] obtain args1 tbl1 where
      st: "parse_step cfg args tbl = Inr (args1, tbl1)"
      by (metis surj_pair)
    from parse_step_consumed [OF st False] assms(1)
    obtain ys where ys: "args = ys @ args1" "ys \<noteq> []"
      by blast
    then have "length args1 < length args"
      by simp
    moreover have "arity_satisfied cfg args1"
      using less.prems ys(1) arity_satisfied_suffix by blast
    ultimately obtain tbl' where "parse_loop cfg args1 tbl1 = Some (Inr tbl')"
      using less.hyps by blast
    with False st show ?thesis
      by (subst parse_loop.simps) simp
  qed
qed

text \<open>
  With an option of arity zero declared under the sentinel's name, the scan of a token that
  is not an option makes no progress: every iteration stores the empty string under
  \<open>unknown\<close> and leaves the index where it was.
\<close>

lemma parse_loop_hang: "parse_loop cfg_hang [''x''] tbl = None"
proof -
  have step: "parse_step cfg_hang [''x''] t = Inr ([''x''], t(''unknown'' \<mapsto> []))" for t
    by (simp add: parse_step.simps parse_while.simps cfg_hang_def CommandConfig_append_def
          isCommand_def isProperty_def has_def option_def unk_opt_def pop_back_def)
  have "False" if "parse_loop cfg_hang [''x''] tbl = Some res" for res
  proof -
    have "cfg_hang = cfg_hang \<and> [''x''] = [''x''] \<longrightarrow> False"
    proof (rule parse_loop.raw_induct [where P = "\<lambda>cfg args tbl res. cfg = cfg_hang \<and> args = [''x''] \<longrightarrow> False",
          OF _ that])
      fix loop cfg args tbl res
      assume IH: "\<And>c a t y. loop c a t = Some y \<Longrightarrow> c = cfg_hang \<and> a = [''x''] \<longrightarrow> False"
        and st: "(if args = [] then Some (Inr tbl)
          else (case parse_step cfg args tbl of
                  Inl e \<Rightarrow> Some (Inl e)
                | Inr (args', tbl') \<Rightarrow> loop cfg args' tbl')) = Some res"
      show "cfg = cfg_hang \<and> args = [''x''] \<longrightarrow> False"
      proof
        assume "cfg = cfg_hang \<and> args = [''x'']"
        with st have "loop cfg_hang [''x''] (tbl(''unknown'' \<mapsto> [])) = Some res"
          by (simp add: step)
        from IH [OF this] show False
          by simp
      qed
    qed
    then show False
      by simp
  qed
  then show ?thesis
    by (cases "parse_loop cfg_hang [''x''] tbl") auto
qed

section \<open>Joined values and the sample configurations\<close>

lemma joined_Nil: "joined [] = []"
  by (simp add: joined_def pop_back_def)

lemma joined_Cons: "joined (v # vs) = (if vs = [] then v else v @ '' '' @ joined vs)"
proof (cases vs)
  case Nil
  then show ?thesis
    by (simp add: joined_def pop_back_def)
next
  case (Cons w ws)
  define C where "C = concat (map (\<lambda>a. a @ '' '') vs)"
  have ne: "C \<noteq> []"
    by (simp add: C_def Cons)
  have "joined (v # vs) = pop_back ((v @ '' '') @ C)"
    by (simp add: joined_def C_def)
  also have "\<dots> = (v @ '' '') @ butlast C"
    using ne by (simp add: pop_back_def butlast_append)
  also have "butlast C = joined vs"
    using ne by (simp add: joined_def pop_back_def C_def)
  finally show ?thesis
    by (simp add: Cons)
qed

lemmas sample_cfg_defs = cfg_cmd_def cfg_self_def CommandConfig_append_def opt_pair_def opt_flag_def opt_list_def

lemma cfg_cmd_name: "cfg_name cfg_cmd = ''cmd''"
  by (simp add: sample_cfg_defs)

lemma cfg_cmd_has:
  "has cfg_cmd t = (t = ''-p'' \<or> t = ''-v'' \<or> t = ''-l'')"
  by (auto simp: has_def sample_cfg_defs)

lemma cfg_cmd_options:
  "m_options cfg_cmd t =
     (if t = ''-l'' then Some opt_list
      else if t = ''-v'' then Some opt_flag
      else if t = ''-p'' then Some opt_pair else None)"
  by (simp add: sample_cfg_defs)

lemma parse_cmd_token: "parse_loop cfg_cmd [''cmd''] tbl = Some (Inr tbl)"
proof -
  have "\<not> has cfg_cmd (cfg_name cfg_cmd)"
    by (simp add: cfg_cmd_name cfg_cmd_has)
  from parse_step_skip [OF this, of "[]" tbl] show ?thesis
    by (simp add: cfg_cmd_name parse_loop_Cons parse_loop_Nil)
qed

lemma cfg_self_name: "cfg_name cfg_self = ''-p''"
  by (simp add: sample_cfg_defs)

lemma cfg_self_has: "has cfg_self t = (t = ''-p'')"
  by (auto simp: has_def sample_cfg_defs)

lemma cfg_go_name: "cfg_name cfg_go = ''go''"
  by (simp add: cfg_go_def CommandConfig_append_def)

lemma cfg_go_has: "has cfg_go t = (t = ''-n'')"
  by (auto simp: has_def cfg_go_def CommandConfig_append_def)

lemma cfg_go_option: "m_options cfg_go ''-n'' = Some \<lparr>opt_name = ''-n'', variadicSize = False, argSize = 1\<rparr>"
  by (simp add: cfg_go_def CommandConfig_append_def)

lemma cfg_unknown_simps:
  "cfg_name cfg_unknown = ''cmd''" "has cfg_unknown t = (t = ''unknown'')"
  "m_options cfg_unknown ''unknown'' = Some \<lparr>opt_name = ''unknown'', variadicSize = False, argSize = 2\<rparr>"
  by (auto simp: cfg_unknown_def CommandConfig_append_def has_def)

lemma cfg_hang_simps:
  "cfg_name cfg_hang = ''cmd''" "has cfg_hang t = (t = ''unknown'')"
  by (auto simp: cfg_hang_def CommandConfig_append_def has_def)

lemmas parse_eval = parse_loop_Cons parse_loop_Nil parse_step.simps parse_while.simps
  isCommand_def isProperty_def option_def unk_opt_def SIZE_MAX_def pop_back_def

lemma ctor_go_sample:
  "CommandArgs_ctor [''go'', ''-n'', ''7''] cfg_go =
     Some (Inr \<lparr>m_argTable = [''-n'' \<mapsto> ''7''], m_config = cfg_go\<rparr>)"
  by (simp add: CommandArgs_ctor_def parse_eval cfg_go_name cfg_go_has cfg_go_option)

lemma ctor_cmd_sample:
  "CommandArgs_ctor [''cmd'', ''c''] cfg_cmd =
     Some (Inr \<lparr>m_argTable = [''unknown'' \<mapsto> ''c''], m_config = cfg_cmd\<rparr>)"
  by (simp add: CommandArgs_ctor_def parse_eval cfg_cmd_name cfg_cmd_has)

section \<open>Reading values back\<close>

lemma getStrVec_loop_Nil: "getStrVec_loop [] res = res"
  by (simp add: getStrVec_loop.simps getline_def)

lemma getline_token:
  assumes "CHR '' '' \<notin> set t"
  shows "getline (t @ CHR '' '' # r) (CHR '' '') = Some (t, r)"
proof -
  have "takeWhile (\<lambda>c. c \<noteq> CHR '' '') (t @ CHR '' '' # r) = t"
    using assms by (auto simp: takeWhile_append)
  moreover have "dropWhile (\<lambda>c. c \<noteq> CHR '' '') (t @ CHR '' '' # r) = CHR '' '' # r"
    using assms by (auto simp: dropWhile_append dropWhile_eq_Nil_conv)
  ultimately show ?thesis
    by (simp add: getline_def)
qed

lemma getline_last:
  assumes "CHR '' '' \<notin> set t" and "t \<noteq> []"
  shows "getline t (CHR '' '') = Some (t, [])"
proof -
  have tw: "takeWhile (\<lambda>c. c \<noteq> CHR '' '') t = t"
    by (rule takeWhile_eq_all_conv [THEN iffD2]) (use assms(1) in auto)
  have dw: "dropWhile (\<lambda>c. c \<noteq> CHR '' '') t = []"
    by (rule dropWhile_eq_Nil_conv [THEN iffD2]) (use assms(1) in auto)
  show ?thesis
    unfolding getline_def tw dw using assms(2) by simp
qed

lemma getStrVec_loop_joined:
  assumes "\<forall>t\<in>set ts. CHR '' '' \<notin> set t" and "ts \<noteq> [] \<longrightarrow> last ts \<noteq> []"
  shows "getStrVec_loop (joined ts) res = res @ ts"
  using assms
proof (induction ts arbitrary: res)
  case Nil
  show ?case
    by (simp add: joined_Nil getStrVec_loop_Nil)
next
  case (Cons t ts)
  show ?case
  proof (cases "ts = []")
    case True
    with Cons.prems have "getline t (CHR '' '') = Some (t, [])"
      by (intro getline_last) auto
    with True show ?thesis
      by (subst getStrVec_loop.simps) (simp add: joined_Cons getStrVec_loop_Nil)
  next
    case False
    from Cons.prems have g: "getline (t @ CHR '' '' # joined ts) (CHR '' '') = Some (t, joined ts)"
      by (intro getline_token) auto
    from Cons.prems False have "getStrVec_loop (joined ts) (res @ [t]) = (res @ [t]) @ ts"
      by (intro Cons.IH) auto
    with False g show ?thesis
      by (subst getStrVec_loop.simps) (simp add: joined_Cons)
  qed
qed

lemma isdigit_not_space: "isdigit c \<Longrightarrow> \<not> isspace c \<and> c \<noteq> CHR ''-'' \<and> c \<noteq> CHR ''+''"
  by (auto simp: isdigit_def isspace_def)

lemma takeWhile_valid: "valid_unsigned ds \<Longrightarrow> takeWhile isdigit ds = ds \<and> dropWhile isspace ds = ds"
  by (cases ds) (auto simp: valid_unsigned_def takeWhile_eq_all_conv list_all_iff isdigit_not_space)

lemma stoul_valid:
  assumes "valid_unsigned ds" and "decimal ds \<le> ULONG_MAX"
  shows "stoul ds = Inr (decimal ds)"
proof -
  from assms(1) obtain c r where ds: "ds = c # r" and c: "isdigit c"
    by (cases ds) (auto simp: valid_unsigned_def)
  note n = isdigit_not_space [OF c]
  have d: "dropWhile isspace ds = ds" and t: "takeWhile isdigit ds = ds"
    using takeWhile_valid [OF assms(1)] by simp_all
  have neg: "(case ds of [] \<Rightarrow> False | c # r \<Rightarrow> c = CHR ''-'') = False"
    using n by (simp add: ds)
  have s2: "(case ds of [] \<Rightarrow> [] | c # r \<Rightarrow> if c = CHR ''-'' \<or> c = CHR ''+'' then r else ds) = ds"
    using n by (simp add: ds)
  have ne: "ds \<noteq> []"
    by (simp add: ds)
  show ?thesis
    unfolding stoul_def Let_def d neg s2 t using assms(2) ne by simp
qed

lemma stoul_minus:
  assumes "valid_unsigned ds" and "decimal ds \<le> ULONG_MAX"
  shows "stoul (CHR ''-'' # ds) = Inr ((2 ^ 64 - decimal ds) mod 2 ^ 64)"
proof -
  from assms(1) have ne: "ds \<noteq> []"
    by (simp add: valid_unsigned_def)
  have t: "takeWhile isdigit ds = ds"
    using takeWhile_valid [OF assms(1)] by simp
  have d: "dropWhile isspace (CHR ''-'' # ds) = CHR ''-'' # ds"
    by (simp add: isspace_def)
  show ?thesis
    unfolding stoul_def Let_def d using assms(2) ne by (simp add: t)
qed

lemma stoul_no_digits:
  assumes "list_all (\<lambda>c. \<not> isspace c \<and> \<not> isdigit c \<and> c \<noteq> CHR ''-'' \<and> c \<noteq> CHR ''+'') (take 1 s)"
  shows "stoul s = Inl (invalid_argument ''stoul'')"
  using assms by (cases s) (simp_all add: stoul_def Let_def)

lemmas stoul_eval = stoul_def isspace_def isdigit_def digit_val_def decimal_def ULONG_MAX_def

lemma stoul7: "stoul ''7'' = Inr 7"
  by (simp add: stoul_def isspace_def isdigit_def digit_val_def decimal_def ULONG_MAX_def)

section \<open>The run loop\<close>

lemma init_simps: "m_commands (init c args) = m_commands c" "m_args (init c args) = args"
  by (simp_all add: init_def)

lemma isCommand_init: "Commander_isCommand (init c args) n = Commander_isCommand c n"
  by (simp add: Commander_isCommand_def init_simps)

lemma invoke_terminates:
  assumes "\<not> has (cc_config caller) ''unknown''"
  shows "\<exists>res. invoke caller seg = Some res"
proof -
  from parse_loop_terminates [OF assms, of seg Map.empty] obtain r where
    "parse_loop (cc_config caller) seg Map.empty = Some r"
    by blast
  then show ?thesis
    by (cases r) (simp_all add: invoke_def CommandArgs_ctor_def)
qed

lemma invoke_thrown:
  assumes "invoke caller seg = Some (Inl ex)" and "\<not> is_std_exception ex"
  shows "\<exists>cb cargs. (m_callback caller = Some cb \<or> m_callback caller = None \<and> m_invoke caller = Some cb)
           \<and> cb cargs = Inl ex"
proof (cases "parse_loop (cc_config caller) seg Map.empty")
  case None
  with assms(1) show ?thesis
    by (simp add: invoke_def CommandArgs_ctor_def)
next
  case (Some r)
  show ?thesis
  proof (cases r)
    case (Inl e)
    with Some assms(1) have "ex = e"
      by (simp add: invoke_def CommandArgs_ctor_def)
    with parse_loop_error [OF Some [unfolded Inl]] assms(2) show ?thesis
      by auto
  next
    case (Inr tbl)
    with Some assms show ?thesis
      by (auto simp: invoke_def CommandArgs_ctor_def split: option.splits)
  qed
qed

lemma run_loop_thrown:
  "run_loop c args = Some (evs, Some (cmd, ex)) \<Longrightarrow>
     \<exists>seg. invokeCommand c cmd seg = Some (Inl ex) \<and> Commander_isCommand c cmd
        \<and> evs \<noteq> [] \<and> last evs = Invoke cmd seg"
proof (induction c args arbitrary: evs rule: run_loop.induct)
  case (1 c)
  then show ?case by simp
next
  case (2 c a rest)
  show ?case
  proof (cases "Commander_isCommand c a")
    case False
    with "2.prems" show ?thesis by simp
  next
    case True
    define seg where "seg = a # takeWhile (\<lambda>v. \<not> Commander_isCommand c v) rest"
    show ?thesis
    proof (cases "invokeCommand c a seg")
      case None
      with "2.prems" True show ?thesis
        by (simp add: seg_def)
    next
      case (Some r)
      show ?thesis
      proof (cases r)
        case (Inl e)
        with "2.prems" True Some show ?thesis
          by (auto simp: seg_def)
      next
        case (Inr st)
        with "2.prems" True Some obtain evs' where
          rec: "run_loop c (dropWhile (\<lambda>v. \<not> Commander_isCommand c v) rest) = Some (evs', Some (cmd, ex))"
          and evs: "evs = Invoke a seg # Handle st # evs'"
          by (auto simp: seg_def split: option.splits)
        from "2.IH" [OF True refl Some [unfolded seg_def] Inr rec]
        show ?thesis
          by (auto simp: evs)
      qed
    qed
  qed
qed

lemma run_loop_terminates:
  assumes "\<forall>caller\<in>ran (m_commands c). \<not> has (cc_config caller) ''unknown''"
  shows "\<exists>res. run_loop c args = Some res"
  using assms
proof (induction c args rule: run_loop.induct)
  case (1 c)
  show ?case by simp
next
  case (2 c a rest)
  show ?case
  proof (cases "Commander_isCommand c a")
    case False
    then show ?thesis by simp
  next
    case True
    then obtain caller where caller: "m_commands c a = Some caller"
      by (auto simp: Commander_isCommand_def)
    then have "caller \<in> ran (m_commands c)"
      by (auto simp: ran_def)
    with "2.prems" have "\<not> has (cc_config caller) ''unknown''"
      by blast
    from invoke_terminates [OF this] caller obtain r where
      inv: "invokeCommand c a (a # takeWhile (\<lambda>v. \<not> Commander_isCommand c v) rest) = Some r"
      by (auto simp: invokeCommand_def)
    show ?thesis
    proof (cases r)
      case (Inl e)
      with True inv show ?thesis by simp
    next
      case (Inr st)
      from "2.IH" [OF True refl inv Inr "2.prems"] obtain res where
        "run_loop c (dropWhile (\<lambda>v. \<not> Commander_isCommand c v) rest) = Some res"
        by blast
      with True inv Inr show ?thesis
        by (cases res) simp
    qed
  qed
qed

lemma commander0_commands:
  "m_commands commander0 n =
     (if n = ''bad'' then Some caller_bad
      else if n = ''go'' then Some caller_go
      else if n = ''cmd'' then Some caller_cmd else None)"
  by (simp add: commander0_def Commander_ctor_def appendCommand_def caller_cmd_def caller_go_def caller_bad_def
        cfg_cmd_name cfg_go_def CommandConfig_append_def)

lemma commander0_isCommand:
  "Commander_isCommand commander0 n = (n = ''bad'' \<or> n = ''go'' \<or> n = ''cmd'')"
  by (simp add: Commander_isCommand_def commander0_commands)

lemma commander0_ran:
  assumes "caller \<in> ran (m_commands commander0)"
  shows "caller = caller_bad \<or> caller = caller_go \<or> caller = caller_cmd"
  using assms by (auto simp: ran_def commander0_commands split: if_splits)


lemma commander1_ran:
  assumes "caller \<in> ran (m_commands commander1)"
  shows "caller = caller_go \<or> caller = caller_cmd"
  using assms
  by (auto simp: ran_def commander1_def Commander_ctor_def appendCommand_def caller_cmd_def caller_go_def
        cfg_cmd_name cfg_go_name split: if_splits)


lemma callback_uint_std:
  assumes "callback_uint cargs = Inl ex"
  shows "is_std_exception ex"
  using assms
  by (auto simp: callback_uint_def getUInt_def stoul_def Let_def key_not_found_def
           split: option.splits sum.splits if_splits)


lemma ctor_cmd_pair:
  "CommandArgs_ctor [''cmd'', ''a'', ''b''] cfg_cmd =
     Some (Inr \<lparr>m_argTable = [''unknown'' \<mapsto> ''a b''], m_config = cfg_cmd\<rparr>)"
  by (simp add: CommandArgs_ctor_def parse_eval cfg_cmd_name cfg_cmd_has)

lemmas run_eval = run_args_def run_def init_simps isCommand_init Let_def invokeCommand_def invoke_def commander0_isCommand
  commander0_commands caller_cmd_def caller_go_def caller_bad_def callback_ok_def callback_uint_def
  callback_throw_def CommandArgs_command_def getString_def_def getUInt_def

lemma invoke_go: "invoke caller_go [''go'', ''-n'', ''7''] = Some (Inr \<lparr>st_name = ''go'', status = OK, msg = []\<rparr>)"
  by (simp add: invoke_def ctor_go_sample caller_go_def callback_uint_def getUInt_def stoul7
        CommandArgs_command_def cfg_go_name)

lemma invoke_cmd: "invoke caller_cmd [''cmd'', ''c''] = Some (Inr \<lparr>st_name = ''cmd'', status = OK, msg = ''c''\<rparr>)"
  by (simp add: invoke_def ctor_cmd_sample caller_cmd_def callback_ok_def getString_def_def
        CommandArgs_command_def cfg_cmd_name)

text \<open>
  Installing a handler changes neither the registry nor the calls of a run, and the member
  \<open>m_handler\<close> of a \<open>Commander\<close> made by its constructor stays an object of the class
  \<open>StatusHandler\<close>.
\<close>

lemma m_handler_simps:
  "m_handler (Commander_ctor args) = StatusHandler_ctor"
  "m_handler (init c args) = m_handler c"
  "m_handler (appendCommand c caller) = m_handler c"
  "m_handler (setHandler c h) = m_handler c"
  by (simp_all add: Commander_ctor_def init_def appendCommand_def setHandler_def
        StatusHandler_assign_def)

lemma setHandler_simps:
  "m_commands (setHandler c h) = m_commands c" "m_args (setHandler c h) = m_args c"
  by (simp_all add: setHandler_def)

lemma isCommand_setHandler: "Commander_isCommand (setHandler c h) n = Commander_isCommand c n"
  by (simp add: Commander_isCommand_def setHandler_simps)

lemma invokeCommand_setHandler: "invokeCommand (setHandler c h) cmd seg = invokeCommand c cmd seg"
  by (simp add: invokeCommand_def setHandler_simps)

lemma invokeCommand_init: "invokeCommand (init c args) cmd seg = invokeCommand c cmd seg"
  by (simp add: invokeCommand_def init_simps)

lemma run_loop_setHandler: "run_loop (setHandler c h) args = run_loop c args"
proof (induction c args rule: run_loop.induct)
  case (1 c)
  show ?case by simp
next
  case (2 c a rest)
  show ?case
  proof (cases "Commander_isCommand c a")
    case False
    then show ?thesis
      by (simp add: isCommand_setHandler)
  next
    case True
    define seg where "seg = a # takeWhile (\<lambda>v. \<not> Commander_isCommand c v) rest"
    show ?thesis
    proof (cases "invokeCommand c a seg")
      case None
      with True show ?thesis
        by (simp add: isCommand_setHandler invokeCommand_setHandler seg_def)
    next
      case (Some r)
      show ?thesis
      proof (cases r)
        case (Inl e)
        with True Some show ?thesis
          by (simp add: isCommand_setHandler invokeCommand_setHandler seg_def)
      next
        case (Inr st)
        from "2.IH" [OF True refl Some [unfolded seg_def] Inr] True Some Inr show ?thesis
          by (simp add: isCommand_setHandler invokeCommand_setHandler seg_def)
      qed
    qed
  qed
qed

lemma run_loop_init: "run_loop (init c args') args = run_loop c args"
proof (induction c args rule: run_loop.induct)
  case (1 c)
  show ?case by simp
next
  case (2 c a rest)
  show ?case
  proof (cases "Commander_isCommand c a")
    case False
    then show ?thesis
      by (simp add: isCommand_init)
  next
    case True
    define seg where "seg = a # takeWhile (\<lambda>v. \<not> Commander_isCommand c v) rest"
    show ?thesis
    proof (cases "invokeCommand c a seg")
      case None
      with True show ?thesis
        by (simp add: isCommand_init invokeCommand_init seg_def)
    next
      case (Some r)
      show ?thesis
      proof (cases r)
        case (Inl e)
        with True Some show ?thesis
          by (simp add: isCommand_init invokeCommand_init seg_def)
      next
        case (Inr st)
        from "2.IH" [OF True refl Some [unfolded seg_def] Inr] True Some Inr show ?thesis
          by (simp add: isCommand_init invokeCommand_init seg_def)
      qed
    qed
  qed
qed

lemma run_args_loop:
  "run_args c args =
     (case run_loop c args of
        None \<Rightarrow> None
      | Some (evs, None) \<Rightarrow> Some (evs, None)
      | Some (evs, Some (command, ex)) \<Rightarrow>
          if is_std_exception ex
          then Some (evs @ [Handle \<lparr>st_name = command, status = ERROR, msg = what ex\<rparr>], None)
          else Some (evs, Some ex))"
  by (simp add: run_args_def run_def init_simps run_loop_init)

lemma run_args_setHandler: "run_args (setHandler c h) args = run_args c args"
  by (simp add: run_args_loop run_loop_setHandler)

text \<open>
  The loop of \<open>run\<close> on a sequence that begins with a segment, and on a sequence of segments
  whose invocations return.
\<close>

lemma segment_takeWhile:
  assumes "segment c seg" and "segment_end c post"
  shows "takeWhile (\<lambda>v. \<not> Commander_isCommand c v) (tl seg @ post) = tl seg"
    and "dropWhile (\<lambda>v. \<not> Commander_isCommand c v) (tl seg @ post) = post"
proof -
  from assms(1) have vs: "\<forall>v\<in>set (tl seg). \<not> Commander_isCommand c v"
    by (simp add: segment_def list_all_iff)
  from assms(2) have p: "takeWhile (\<lambda>v. \<not> Commander_isCommand c v) post = []"
    "dropWhile (\<lambda>v. \<not> Commander_isCommand c v) post = post"
    by (cases post; simp add: segment_end_def)+
  from vs p show "takeWhile (\<lambda>v. \<not> Commander_isCommand c v) (tl seg @ post) = tl seg"
    by (simp add: takeWhile_append2)
  from vs p show "dropWhile (\<lambda>v. \<not> Commander_isCommand c v) (tl seg @ post) = post"
    by (simp add: dropWhile_append2)
qed

lemma run_loop_segment:
  assumes "segment c seg" and "segment_end c post"
  shows "run_loop c (seg @ post) =
     (case invokeCommand c (hd seg) seg of
        None \<Rightarrow> None
      | Some (Inl e) \<Rightarrow> Some ([Invoke (hd seg) seg], Some (hd seg, e))
      | Some (Inr st) \<Rightarrow>
          (case run_loop c post of
             None \<Rightarrow> None
           | Some (evs, thrown) \<Rightarrow> Some (Invoke (hd seg) seg # Handle st # evs, thrown)))"
proof -
  from assms(1) obtain n vs where seg: "seg = n # vs" and n: "Commander_isCommand c n"
    by (cases seg) (simp_all add: segment_def)
  from segment_takeWhile [OF assms] seg
  have tw: "takeWhile (\<lambda>v. \<not> Commander_isCommand c v) (vs @ post) = vs"
    and dw: "dropWhile (\<lambda>v. \<not> Commander_isCommand c v) (vs @ post) = post"
    by simp_all
  show ?thesis
    unfolding seg
    by (simp add: n tw dw Let_def split: option.splits sum.splits)
qed

lemma returned_Cons:
  "returned c ((seg, st) # segs) =
     (segment c seg \<and> invokeCommand c (hd seg) seg = Some (Inr st) \<and> returned c segs)"
  by (simp add: returned_def)

lemma completed_Cons: "completed ((seg, st) # segs) = Invoke (hd seg) seg # Handle st # completed segs"
  by (simp add: completed_def)

lemma segment_end_concat:
  assumes "returned c segs" and "segment_end c post"
  shows "segment_end c (concat (map fst segs) @ post)"
proof (cases segs)
  case Nil
  with assms(2) show ?thesis by simp
next
  case (Cons p segs')
  obtain seg st where p: "p = (seg, st)" by (cases p)
  with Cons assms(1) have "segment c seg"
    by (simp add: returned_Cons)
  then show ?thesis
    by (cases seg) (simp_all add: Cons p segment_def segment_end_def)
qed

lemma run_loop_returned:
  assumes "returned c segs" and "segment_end c post"
  shows "run_loop c (concat (map fst segs) @ post) =
     (case run_loop c post of
        None \<Rightarrow> None
      | Some (evs, thrown) \<Rightarrow> Some (completed segs @ evs, thrown))"
  using assms(1)
proof (induction segs)
  case Nil
  show ?case
    by (simp add: completed_def split: option.splits)
next
  case (Cons p segs)
  obtain seg st where p: "p = (seg, st)" by (cases p)
  from Cons.prems p have s: "segment c seg" and i: "invokeCommand c (hd seg) seg = Some (Inr st)"
    and r: "returned c segs"
    by (simp_all add: returned_Cons)
  from segment_end_concat [OF r assms(2)]
  have e: "segment_end c (concat (map fst segs) @ post)" .
  have "run_loop c (concat (map fst (p # segs)) @ post) = run_loop c (seg @ (concat (map fst segs) @ post))"
    by (simp add: p)
  also have "\<dots> = (case run_loop c (concat (map fst segs) @ post) of
             None \<Rightarrow> None
           | Some (evs, thrown) \<Rightarrow> Some (Invoke (hd seg) seg # Handle st # evs, thrown))"
    by (simp add: run_loop_segment [OF s e] i)
  also have "\<dots> = (case run_loop c post of
        None \<Rightarrow> None
      | Some (evs, thrown) \<Rightarrow> Some (completed (p # segs) @ evs, thrown))"
    by (simp add: Cons.IH [OF r] p completed_Cons split: option.splits)
  finally show ?case .
qed

lemma segments_cover:
  assumes "args \<noteq> []" and "Commander_isCommand c (hd args)"
  shows "\<exists>segs. args = concat segs \<and> list_all (segment c) segs"
  using assms
proof (induction args rule: length_induct)
  case (1 args)
  from "1.prems" obtain a rest where args: "args = a # rest" and a: "Commander_isCommand c a"
    by (cases args) simp_all
  define seg where "seg = a # takeWhile (\<lambda>v. \<not> Commander_isCommand c v) rest"
  define post where "post = dropWhile (\<lambda>v. \<not> Commander_isCommand c v) rest"
  have split: "args = seg @ post"
    by (simp add: args seg_def post_def)
  have s: "segment c seg"
    using a by (auto simp: segment_def seg_def list_all_iff dest: set_takeWhileD)
  show ?case
  proof (cases post)
    case Nil
    with split s have "args = concat [seg] \<and> list_all (segment c) [seg]"
      by simp
    then show ?thesis by blast
  next
    case (Cons b post')
    from Cons have ne: "dropWhile (\<lambda>v. \<not> Commander_isCommand c v) rest \<noteq> []"
      by (simp add: post_def)
    from hd_dropWhile [OF ne] have "Commander_isCommand c (hd post)"
      by (simp add: post_def)
    moreover have "length post < length args"
      using length_dropWhile_le [of "\<lambda>v. \<not> Commander_isCommand c v" rest]
      by (simp add: post_def args)
    moreover have "post \<noteq> []"
      using Cons by simp
    ultimately obtain segs where "post = concat segs" and "list_all (segment c) segs"
      using "1.IH" by blast
    with split s have "args = concat (seg # segs) \<and> list_all (segment c) (seg # segs)"
      by simp
    then show ?thesis by blast
  qed
qed

text \<open>
  A run on a \<open>Commander\<close> whose member \<open>m_handler\<close> is an object of the class \<open>StatusHandler\<close>
  leaves the state of the handlers as it was, whichever handler was installed.
\<close>

lemma perform_base:
  assumes "m_handler c = StatusHandler_ctor"
  shows "fold (perform c) evs w = w"
proof (induction evs)
  case Nil
  show ?case by simp
next
  case (Cons ev evs)
  then show ?case
    by (cases ev) (simp_all add: assms StatusHandler_ctor_def)
qed

lemma run_effect_base:
  assumes "m_handler c = StatusHandler_ctor"
  shows "run_effect (setHandler c h) args w = map_option (\<lambda>r. w) (run_args c args)"
proof -
  have "m_handler (setHandler c h) = StatusHandler_ctor"
    by (simp add: m_handler_simps assms)
  from perform_base [OF this] show ?thesis
    by (simp add: run_effect_def run_args_setHandler option.map_comp comp_def split_def)
qed

lemma commander0_handler: "m_handler commander0 = StatusHandler_ctor"
  by (simp add: commander0_def m_handler_simps)

text \<open>
  Invocations of the sample callers.
\<close>

lemma invoke_cmd_pair:
  "invoke caller_cmd [''cmd'', ''a'', ''b''] = Some (Inr \<lparr>st_name = ''cmd'', status = OK, msg = ''a b''\<rparr>)"
  by (simp add: invoke_def ctor_cmd_pair caller_cmd_def callback_ok_def getString_def_def
        CommandArgs_command_def cfg_cmd_name)

lemma invoke_cmd_only:
  "invoke caller_cmd [''cmd''] = Some (Inr \<lparr>st_name = ''cmd'', status = OK, msg = []\<rparr>)"
  by (simp add: invoke_def CommandArgs_ctor_def parse_cmd_token caller_cmd_def callback_ok_def
        getString_def_def CommandArgs_command_def cfg_cmd_name)

lemma invoke_go_loose: "invoke caller_go [''go'', ''c''] = Some (Inl (key_not_found ''-n''))"
proof -
  have "CommandArgs_ctor [''go'', ''c''] cfg_go =
      Some (Inr \<lparr>m_argTable = [''unknown'' \<mapsto> ''c''], m_config = cfg_go\<rparr>)"
    by (simp add: CommandArgs_ctor_def parse_eval cfg_go_name cfg_go_has)
  then show ?thesis
    by (simp add: invoke_def caller_go_def callback_uint_def getUInt_def)
qed

lemma invoke_go_loose2: "invoke caller_go [''go'', ''x'', ''y''] = Some (Inl (key_not_found ''-n''))"
proof -
  have "CommandArgs_ctor [''go'', ''x'', ''y''] cfg_go =
      Some (Inr \<lparr>m_argTable = [''unknown'' \<mapsto> ''x y''], m_config = cfg_go\<rparr>)"
    by (simp add: CommandArgs_ctor_def parse_eval cfg_go_name cfg_go_has)
  then show ?thesis
    by (simp add: invoke_def caller_go_def callback_uint_def getUInt_def)
qed

lemma invoke_bad_pair: "invoke caller_bad [''bad'', ''x'', ''y''] = Some (Inl non_std)"
  by (simp add: invoke_def caller_bad_def callback_throw_def CommandArgs_ctor_def parse_eval has_def)

lemma invoke_bad_one: "invoke caller_bad [''bad'', ''c''] = Some (Inl non_std)"
  by (simp add: invoke_def caller_bad_def callback_throw_def CommandArgs_ctor_def parse_eval has_def)

lemma invoke_bad_only: "invoke caller_bad [''bad''] = Some (Inl non_std)"
  by (simp add: invoke_def caller_bad_def callback_throw_def CommandArgs_ctor_def parse_eval has_def)

lemma std_key_not_found: "is_std_exception (key_not_found n)"
  by (simp add: key_not_found_def)

lemma invoke_cmd_arity:
  "invoke caller_cmd [''cmd'', ''-p'', ''1''] =
     Some (Inl (runtime_error (''not enough arguments '' @ dq @ ''-p'' @ dq)))"
proof -
  have "CommandArgs_ctor [''cmd'', ''-p'', ''1''] cfg_cmd =
      Some (Inl (runtime_error (''not enough arguments '' @ dq @ ''-p'' @ dq)))"
    by (simp add: CommandArgs_ctor_def parse_eval cfg_cmd_name cfg_cmd_has cfg_cmd_options
          opt_pair_def)
  then show ?thesis
    by (simp add: invoke_def caller_cmd_def)
qed

lemma commander0_invoke:
  "invokeCommand commander0 ''cmd'' seg = invoke caller_cmd seg"
  "invokeCommand commander0 ''go'' seg = invoke caller_go seg"
  "invokeCommand commander0 ''bad'' seg = invoke caller_bad seg"
  by (simp_all add: invokeCommand_def commander0_commands)

section \<open>Claims about CommandArgs::parse\<close>

text \<open>
  C1.  The claim: for every configuration and every segment in which each occurrence of a
  non-variadic option is followed by at least its declared number of value tokens, parsing
  raises no error, and the resulting table has an entry for every option of the configuration
  that occurs in the segment.

  The code does not keep this for a configuration that declares an option under the name
  \<open>unknown\<close>, the name of the parser's sentinel option: a token that is no option is filed
  under the key \<open>unknown\<close>, and the lookup \<open>m_config.has(key) ? m_config.option(key) : unk_opt\<close>
  then finds the declared option in place of the sentinel.  The segment \<open>cmd x\<close> contains no
  occurrence of an option at all.  With \<open>unknown\<close> declared with arity two the constructor
  throws \<open>not enough arguments "unknown"\<close>; with \<open>unknown\<close> declared with arity zero the
  scan never returns.
\<close>

theorem parse_sentinel_collision:
  "arity_satisfied cfg_unknown [''cmd'', ''x'']
   \<and> CommandArgs_ctor [''cmd'', ''x''] cfg_unknown =
       Some (Inl (runtime_error (''not enough arguments '' @ dq @ ''unknown'' @ dq)))
   \<and> arity_satisfied cfg_hang [''cmd'', ''x'']
   \<and> CommandArgs_ctor [''cmd'', ''x''] cfg_hang = None"
proof -
  have "arity_satisfied cfg_unknown [''cmd'', ''x'']"
    by (simp add: cfg_unknown_def CommandConfig_append_def)
  moreover have "CommandArgs_ctor [''cmd'', ''x''] cfg_unknown =
       Some (Inl (runtime_error (''not enough arguments '' @ dq @ ''unknown'' @ dq)))"
    by (simp add: CommandArgs_ctor_def parse_eval cfg_unknown_simps)
  moreover have "arity_satisfied cfg_hang [''cmd'', ''x'']"
    by (simp add: cfg_hang_def CommandConfig_append_def)
  moreover have "parse_loop cfg_hang [''cmd'', ''x''] Map.empty = parse_loop cfg_hang [''x''] Map.empty"
    using parse_step_skip [of cfg_hang "[''x'']" Map.empty]
    by (simp add: parse_loop_Cons cfg_hang_simps)
  then have "CommandArgs_ctor [''cmd'', ''x''] cfg_hang = None"
    by (simp add: CommandArgs_ctor_def parse_loop_hang)
  ultimately show ?thesis
    by simp
qed

text \<open>
  For every configuration that leaves the sentinel's name alone the statement of C1 holds:
  the constructor returns, without an error, arguments that have an entry for every option
  occurring in the segment.
\<close>

lemma parse_without_sentinel:
  assumes "\<not> has cfg ''unknown''" and "arity_satisfied cfg T"
  shows "\<exists>a. CommandArgs_ctor T cfg = Some (Inr a) \<and> (\<forall>t\<in>set T. has cfg t \<longrightarrow> CommandArgs_has a t)"
proof -
  from parse_loop_total [OF assms, of Map.empty] obtain tbl where
    p: "parse_loop cfg T Map.empty = Some (Inr tbl)"
    by blast
  from parse_loop_entries [OF p] have "\<forall>t\<in>set T. has cfg t \<longrightarrow> t \<in> dom tbl"
    by blast
  with p show ?thesis
    by (auto simp: CommandArgs_ctor_def CommandArgs_has_def)
qed

text \<open>
  C2.  Let \<open>k\<close> be an option declared with \<open>variadicSize = False\<close> and \<open>argSize = n\<close>, reached by
  the scan after the tokens \<open>pre\<close> have been parsed into the table \<open>tbl\<close>, and let \<open>vals\<close> be the
  value tokens (none of them an option of the configuration) that follow \<open>k\<close>.
  \<^item> With fewer than \<open>n\<close> values before the next option or the end of the segment, constructing
    the \<open>CommandArgs\<close> throws \<open>runtime_error\<close> with the message \<open>not enough arguments "k"\<close>.
  \<^item> With exactly \<open>n\<close> values ending the segment, it succeeds and stores the joined values
    under \<open>k\<close>.
  \<^item> With \<open>n\<close> values or more, exactly the first \<open>n\<close> are stored under \<open>k\<close> and the scan goes on
    with the remaining tokens; when the configuration declares no option under the name
    \<open>unknown\<close> and the first remaining value is not the command's name, the remaining values
    up to the next option are stored under the sentinel key \<open>unknown\<close>.
\<close>

theorem parse_fixed_arity:
  assumes "parse_loop cfg pre Map.empty = Some (Inr tbl)"
    and "m_options cfg k = Some opt"
    and "\<not> variadicSize opt"
    and "\<forall>v\<in>set vals. \<not> has cfg v"
  shows "(length vals < argSize opt \<and> (post = [] \<or> has cfg (hd post)) \<longrightarrow>
            CommandArgs_ctor (pre @ k # vals @ post) cfg =
              Some (Inl (runtime_error (''not enough arguments '' @ dq @ k @ dq))))
       \<and> (length vals = argSize opt \<longrightarrow>
            CommandArgs_ctor (pre @ k # vals) cfg =
              Some (Inr \<lparr>m_argTable = tbl(k \<mapsto> joined vals), m_config = cfg\<rparr>))
       \<and> (argSize opt \<le> length vals \<longrightarrow>
            parse_loop cfg (pre @ k # vals @ post) Map.empty =
              parse_loop cfg (drop (argSize opt) vals @ post)
                (tbl(k \<mapsto> joined (take (argSize opt) vals))))
       \<and> (argSize opt < length vals \<and> \<not> has cfg ''unknown'' \<and> vals ! argSize opt \<noteq> cfg_name cfg
            \<and> length vals - argSize opt \<le> SIZE_MAX \<and> (post = [] \<or> has cfg (hd post)) \<longrightarrow>
            parse_loop cfg (pre @ k # vals @ post) Map.empty =
              parse_loop cfg post
                (tbl(k \<mapsto> joined (take (argSize opt) vals),
                     ''unknown'' \<mapsto> joined (drop (argSize opt) vals))))"
proof -
  have k: "has cfg k"
    using assms(2) by (simp add: has_def)
  have reach: "parse_loop cfg (pre @ k # rest) Map.empty = parse_loop cfg (k # rest) tbl" for rest
    using parse_loop_append [OF assms(1) k] by simp
  have few: "parse_loop cfg (k # vals @ post) tbl =
      Some (Inl (runtime_error (''not enough arguments '' @ dq @ k @ dq)))"
    if "length vals < argSize opt" and "post = [] \<or> has cfg (hd post)"
    using that assms(3) parse_step_option [OF assms(2) assms(4), of post tbl]
    by (simp add: parse_loop_Cons)
  have more: "parse_loop cfg (k # vals @ post) tbl =
      parse_loop cfg (drop (argSize opt) vals @ post) (tbl(k \<mapsto> joined (take (argSize opt) vals)))"
    if "argSize opt \<le> length vals"
  proof -
    have "\<forall>v\<in>set (take (argSize opt) vals). \<not> has cfg v"
      using assms(4) by (auto dest: in_set_takeD)
    from parse_step_option [OF assms(2) this, of "drop (argSize opt) vals @ post" tbl] that
    have "parse_step cfg (k # take (argSize opt) vals @ drop (argSize opt) vals @ post) tbl =
        Inr (drop (argSize opt) vals @ post, tbl(k \<mapsto> joined (take (argSize opt) vals)))"
      by simp
    moreover have "take (argSize opt) vals @ drop (argSize opt) vals @ post = vals @ post"
      by simp
    ultimately show ?thesis
      by (simp add: parse_loop_Cons)
  qed
  have exact: "parse_loop cfg (k # vals) tbl = Some (Inr (tbl(k \<mapsto> joined vals)))"
    if "length vals = argSize opt"
    using that parse_step_option [OF assms(2) assms(4), of "[]" tbl]
    by (simp add: parse_loop_Cons parse_loop_Nil)
  have bucket: "parse_loop cfg (k # vals @ post) tbl =
      parse_loop cfg post (tbl(k \<mapsto> joined (take (argSize opt) vals),
                     ''unknown'' \<mapsto> joined (drop (argSize opt) vals)))"
    if lt: "argSize opt < length vals" and unk: "\<not> has cfg ''unknown''"
      and nc: "vals ! argSize opt \<noteq> cfg_name cfg"
      and sz: "length vals - argSize opt \<le> SIZE_MAX" and post: "post = [] \<or> has cfg (hd post)"
  proof -
    from lt obtain a as where d: "drop (argSize opt) vals = a # as"
      by (cases "drop (argSize opt) vals") auto
    from d have a: "a = vals ! argSize opt"
      using lt by (metis nth_via_drop)
    have "set (a # as) \<subseteq> set vals"
      using set_drop_subset [of "argSize opt" vals] d by simp
    with assms(4) have na: "\<not> has cfg a" and nas: "\<forall>v\<in>set as. \<not> has cfg v"
      by auto
    have len: "Suc (length as) \<le> SIZE_MAX"
      using sz d by (metis length_Cons length_drop)
    have "parse_step cfg (a # as @ post) (tbl(k \<mapsto> joined (take (argSize opt) vals))) =
        Inr (post, tbl(k \<mapsto> joined (take (argSize opt) vals), ''unknown'' \<mapsto> joined (a # as)))"
      using na nc a unk nas len post by (intro parse_step_unknown) auto
    then show ?thesis
      using more lt d by (simp add: parse_loop_Cons)
  qed
  show ?thesis
    using few more exact bucket by (simp add: reach CommandArgs_ctor_def reach [of "vals", simplified])
qed

theorem parse_fixed_arity_witness:
  "parse_loop cfg_cmd [''cmd''] Map.empty = Some (Inr Map.empty)
   \<and> m_options cfg_cmd ''-p'' = Some opt_pair \<and> \<not> variadicSize opt_pair
   \<and> CommandArgs_ctor [''cmd'', ''-p'', ''1''] cfg_cmd =
        Some (Inl (runtime_error (''not enough arguments '' @ dq @ ''-p'' @ dq)))
   \<and> CommandArgs_ctor [''cmd'', ''-p'', ''1'', ''2''] cfg_cmd =
        Some (Inr \<lparr>m_argTable = [''-p'' \<mapsto> ''1 2''], m_config = cfg_cmd\<rparr>)
   \<and> parse_loop cfg_cmd [''cmd'', ''-p'', ''1'', ''2'', ''3'', ''-v''] Map.empty =
        parse_loop cfg_cmd [''-v''] [''-p'' \<mapsto> ''1 2'', ''unknown'' \<mapsto> ''3'']"
proof -
  note pre = parse_cmd_token
  have opt: "m_options cfg_cmd ''-p'' = Some opt_pair"
    by (simp add: sample_cfg_defs)
  have nv: "\<not> variadicSize opt_pair"
    by (simp add: opt_pair_def)
  have vals: "\<forall>v\<in>set [''1'', ''2'', ''3'']. \<not> has cfg_cmd v"
    by (simp add: cfg_cmd_has)
  then have vals1: "\<forall>v\<in>set [''1'']. \<not> has cfg_cmd v"
    and vals2: "\<forall>v\<in>set [''1'', ''2'']. \<not> has cfg_cmd v"
    by simp_all
  have unk: "\<not> has cfg_cmd ''unknown''" and v: "has cfg_cmd ''-v''" and n: "cfg_name cfg_cmd = ''cmd''"
    by (simp_all add: cfg_cmd_has cfg_cmd_name)
  have a: "argSize opt_pair = 2"
    by (simp add: opt_pair_def)
  from parse_fixed_arity [OF pre opt nv vals1, where post = "[]"]
  have few: "CommandArgs_ctor [''cmd'', ''-p'', ''1''] cfg_cmd =
        Some (Inl (runtime_error (''not enough arguments '' @ dq @ ''-p'' @ dq)))"
    by (simp add: a)
  from parse_fixed_arity [OF pre opt nv vals2, where post = "[]"]
  have exact: "CommandArgs_ctor [''cmd'', ''-p'', ''1'', ''2''] cfg_cmd =
        Some (Inr \<lparr>m_argTable = [''-p'' \<mapsto> ''1 2''], m_config = cfg_cmd\<rparr>)"
    by (simp add: a joined_Cons)
  from parse_fixed_arity [OF pre opt nv vals, where post = "[''-v'']",
      THEN conjunct2, THEN conjunct2, THEN conjunct2]
  have more: "parse_loop cfg_cmd [''cmd'', ''-p'', ''1'', ''2'', ''3'', ''-v''] Map.empty =
        parse_loop cfg_cmd [''-v''] [''-p'' \<mapsto> ''1 2'', ''unknown'' \<mapsto> ''3'']"
    by (simp add: a joined_Cons unk v n SIZE_MAX_def)
  from pre opt nv few exact more show ?thesis
    by simp
qed

text \<open>
  C5.  When the scan stands at a token equal to the command's own name and that name is not
  a declared option, the token is consumed and the table is left as it was; in particular the
  leading command token of a segment is absorbed.  When the command's name is one of its own
  options, the token is an ordinary option occurrence: it becomes the key, takes the following
  value tokens up to its arity, fails with the arity error when it is not variadic and gets
  too few, and otherwise stores the joined values under the command's name.
\<close>

theorem parse_command_token:
  "(\<not> has cfg (cfg_name cfg) \<longrightarrow>
       parse_loop cfg (cfg_name cfg # rest) tbl = parse_loop cfg rest tbl
     \<and> CommandArgs_ctor (cfg_name cfg # rest) cfg = CommandArgs_ctor rest cfg)
   \<and> (m_options cfg (cfg_name cfg) = Some opt \<and> (\<forall>v\<in>set vals. \<not> has cfg v)
        \<and> length vals \<le> argSize opt
        \<and> (post = [] \<or> has cfg (hd post) \<or> length vals = argSize opt) \<longrightarrow>
       parse_loop cfg (cfg_name cfg # vals @ post) tbl =
         (if length vals < argSize opt \<and> \<not> variadicSize opt
          then Some (Inl (runtime_error (''not enough arguments '' @ dq @ cfg_name cfg @ dq)))
          else parse_loop cfg post (tbl(cfg_name cfg \<mapsto> joined vals))))"
proof (intro conjI impI)
  assume n: "\<not> has cfg (cfg_name cfg)"
  show skip: "parse_loop cfg (cfg_name cfg # rest) tbl = parse_loop cfg rest tbl" for tbl
    by (simp add: parse_loop_Cons parse_step_skip [OF n])
  show "CommandArgs_ctor (cfg_name cfg # rest) cfg = CommandArgs_ctor rest cfg"
    by (simp add: CommandArgs_ctor_def skip)
next
  assume a: "m_options cfg (cfg_name cfg) = Some opt \<and> (\<forall>v\<in>set vals. \<not> has cfg v)
        \<and> length vals \<le> argSize opt
        \<and> (post = [] \<or> has cfg (hd post) \<or> length vals = argSize opt)"
  then have "parse_step cfg (cfg_name cfg # vals @ post) tbl =
           (if length vals < argSize opt \<and> \<not> variadicSize opt
            then Inl (runtime_error (''not enough arguments '' @ dq @ cfg_name cfg @ dq))
            else Inr (post, tbl(cfg_name cfg \<mapsto> joined vals)))"
    by (intro parse_step_option) auto
  then show "parse_loop cfg (cfg_name cfg # vals @ post) tbl =
         (if length vals < argSize opt \<and> \<not> variadicSize opt
          then Some (Inl (runtime_error (''not enough arguments '' @ dq @ cfg_name cfg @ dq)))
          else parse_loop cfg post (tbl(cfg_name cfg \<mapsto> joined vals)))"
    by (simp add: parse_loop_Cons)
qed

theorem parse_command_token_witness:
  "\<not> has cfg_cmd (cfg_name cfg_cmd)
   \<and> CommandArgs_ctor [''cmd'', ''-p'', ''1'', ''2''] cfg_cmd = CommandArgs_ctor [''-p'', ''1'', ''2''] cfg_cmd
   \<and> m_options cfg_self (cfg_name cfg_self) = Some opt_pair
   \<and> parse_loop cfg_self [''-p'', ''1'', ''2''] Map.empty = Some (Inr [''-p'' \<mapsto> ''1 2''])
   \<and> parse_loop cfg_self [''-p'', ''1''] Map.empty =
        Some (Inl (runtime_error (''not enough arguments '' @ dq @ ''-p'' @ dq)))"
proof -
  have n: "\<not> has cfg_cmd (cfg_name cfg_cmd)"
    by (simp add: cfg_cmd_name cfg_cmd_has)
  from parse_command_token [where cfg = cfg_cmd and rest = "[''-p'', ''1'', ''2'']", THEN conjunct1] n
  have skip: "CommandArgs_ctor [''cmd'', ''-p'', ''1'', ''2''] cfg_cmd =
      CommandArgs_ctor [''-p'', ''1'', ''2''] cfg_cmd"
    by (simp add: cfg_cmd_name)
  have o: "m_options cfg_self (cfg_name cfg_self) = Some opt_pair"
    by (simp add: sample_cfg_defs)
  have a: "argSize opt_pair = 2" "\<not> variadicSize opt_pair"
    by (simp_all add: opt_pair_def)
  from parse_command_token [where cfg = cfg_self and opt = opt_pair and vals = "[''1'', ''2'']"
      and post = "[]" and tbl = Map.empty, THEN conjunct2] o
  have own: "parse_loop cfg_self [''-p'', ''1'', ''2''] Map.empty = Some (Inr [''-p'' \<mapsto> ''1 2''])"
    by (simp add: cfg_self_name cfg_self_has a joined_Cons parse_loop_Nil)
  from parse_command_token [where cfg = cfg_self and opt = opt_pair and vals = "[''1'']"
      and post = "[]" and tbl = Map.empty, THEN conjunct2] o
  have few: "parse_loop cfg_self [''-p'', ''1''] Map.empty =
        Some (Inl (runtime_error (''not enough arguments '' @ dq @ ''-p'' @ dq)))"
    by (simp add: cfg_self_name cfg_self_has a)
  from n skip o own few show ?thesis
    by simp
qed

text \<open>
  C10.  An occurrence of an option \<open>k\<close> that is variadic or has arity zero and is directly
  followed by another option or by the end of the segment consumes no value and stores the
  empty string under \<open>k\<close>.  In the arguments constructed from the segment \<open>has(k)\<close> is true;
  unless \<open>k\<close> occurs again later in the segment (or is itself named \<open>unknown\<close>),
  \<open>getString(k)\<close> is the empty string and \<open>getStrVec(k)\<close> is the empty sequence, not a
  sequence holding one empty string.
\<close>

theorem parse_zero_values:
  assumes "parse_loop cfg pre Map.empty = Some (Inr tbl)"
    and "m_options cfg k = Some opt"
    and "variadicSize opt \<or> argSize opt = 0"
    and "post = [] \<or> has cfg (hd post)"
  shows "parse_loop cfg (pre @ k # post) Map.empty = parse_loop cfg post (tbl(k \<mapsto> []))
       \<and> (\<forall>a. CommandArgs_ctor (pre @ k # post) cfg = Some (Inr a) \<longrightarrow>
              CommandArgs_has a k
            \<and> (k \<notin> set post \<and> k \<noteq> ''unknown'' \<longrightarrow>
                 getString a k = Inr [] \<and> getStrVec a k throwEx = Inr []))
       \<and> (post = [] \<longrightarrow>
            CommandArgs_ctor (pre @ [k]) cfg = Some (Inr \<lparr>m_argTable = tbl(k \<mapsto> []), m_config = cfg\<rparr>))"
proof -
  have k: "has cfg k"
    using assms(2) by (simp add: has_def)
  have "parse_step cfg (k # [] @ post) tbl =
      (if length ([] :: ArgVec) < argSize opt \<and> \<not> variadicSize opt
       then Inl (runtime_error (''not enough arguments '' @ dq @ k @ dq))
       else Inr (post, tbl(k \<mapsto> joined [])))"
    using assms(4) by (intro parse_step_option [OF assms(2)]) auto
  with assms(3) have "parse_step cfg (k # post) tbl = Inr (post, tbl(k \<mapsto> []))"
    by (auto simp: joined_Nil)
  then have "parse_loop cfg (k # post) tbl = parse_loop cfg post (tbl(k \<mapsto> []))"
    by (simp add: parse_loop_Cons)
  with parse_loop_append [OF assms(1) k, of post]
  have reach: "parse_loop cfg (pre @ k # post) Map.empty = parse_loop cfg post (tbl(k \<mapsto> []))"
    by simp
  have acc: "CommandArgs_has a k
      \<and> (k \<notin> set post \<and> k \<noteq> ''unknown'' \<longrightarrow> getString a k = Inr [] \<and> getStrVec a k throwEx = Inr [])"
    if "CommandArgs_ctor (pre @ k # post) cfg = Some (Inr a)" for a
  proof -
    from that reach have "parse_loop cfg post (tbl(k \<mapsto> [])) = Some (Inr (m_argTable a))"
      by (auto simp: CommandArgs_ctor_def split: option.splits sum.splits)
    from parse_loop_entries [OF this]
    have "dom (tbl(k \<mapsto> [])) \<subseteq> dom (m_argTable a)"
      and "k \<notin> set post \<longrightarrow> k \<noteq> ''unknown'' \<longrightarrow> m_argTable a k = (tbl(k \<mapsto> [])) k"
      by blast+
    then show ?thesis
      by (auto simp: CommandArgs_has_def getString_def getStrVec_def getStrVec_loop_Nil)
  qed
  from reach acc show ?thesis
    by (auto simp: CommandArgs_ctor_def parse_loop_Nil)
qed

theorem parse_zero_values_witness:
  "parse_loop cfg_cmd [''cmd''] Map.empty = Some (Inr Map.empty)
   \<and> m_options cfg_cmd ''-v'' = Some opt_flag \<and> argSize opt_flag = 0
   \<and> m_options cfg_cmd ''-l'' = Some opt_list \<and> variadicSize opt_list
   \<and> has cfg_cmd ''-l''
   \<and> CommandArgs_ctor [''cmd'', ''-v'', ''-l''] cfg_cmd =
        Some (Inr \<lparr>m_argTable = [''-v'' \<mapsto> [], ''-l'' \<mapsto> []], m_config = cfg_cmd\<rparr>)
   \<and> CommandArgs_has \<lparr>m_argTable = [''-v'' \<mapsto> [], ''-l'' \<mapsto> []], m_config = cfg_cmd\<rparr> ''-v''
   \<and> getString \<lparr>m_argTable = [''-v'' \<mapsto> [], ''-l'' \<mapsto> []], m_config = cfg_cmd\<rparr> ''-v'' = Inr []
   \<and> getStrVec \<lparr>m_argTable = [''-v'' \<mapsto> [], ''-l'' \<mapsto> []], m_config = cfg_cmd\<rparr> ''-v'' False = Inr []"
proof -
  note pre = parse_cmd_token [of Map.empty]
  have ov: "m_options cfg_cmd ''-v'' = Some opt_flag" and ol: "m_options cfg_cmd ''-l'' = Some opt_list"
    by (simp_all add: cfg_cmd_options)
  have zv: "argSize opt_flag = 0" and vl: "variadicSize opt_list"
    by (simp_all add: opt_flag_def opt_list_def)
  have hl: "has cfg_cmd ''-l''"
    by (simp add: cfg_cmd_has)
  from parse_zero_values [OF pre ov, where post = "[]", THEN conjunct1] zv
  have pre2: "parse_loop cfg_cmd [''cmd'', ''-v''] Map.empty = Some (Inr [''-v'' \<mapsto> []])"
    by (simp add: parse_loop_Nil)
  from parse_zero_values [OF pre2 ol, where post = "[]", THEN conjunct2, THEN conjunct2] vl
  have all: "CommandArgs_ctor [''cmd'', ''-v'', ''-l''] cfg_cmd =
        Some (Inr \<lparr>m_argTable = [''-v'' \<mapsto> [], ''-l'' \<mapsto> []], m_config = cfg_cmd\<rparr>)"
    by simp
  from parse_zero_values [OF pre ov, where post = "[''-l'']" and throwEx = False,
      THEN conjunct2, THEN conjunct1] zv hl all
  have "CommandArgs_has \<lparr>m_argTable = [''-v'' \<mapsto> [], ''-l'' \<mapsto> []], m_config = cfg_cmd\<rparr> ''-v''
   \<and> getString \<lparr>m_argTable = [''-v'' \<mapsto> [], ''-l'' \<mapsto> []], m_config = cfg_cmd\<rparr> ''-v'' = Inr []
   \<and> getStrVec \<lparr>m_argTable = [''-v'' \<mapsto> [], ''-l'' \<mapsto> []], m_config = cfg_cmd\<rparr> ''-v'' False = Inr []"
    by simp
  with pre ov zv ol vl hl all show ?thesis
    by simp
qed

section \<open>Claims about the accessors\<close>

text \<open>
  C7.  The claim: \<open>getUInt(key)\<close> fails with NotFound when the key is absent and with a parse
  error when the stored string is not a valid unsigned integer; \<open>getUInt(key, default)\<close>
  returns the default exactly when the key is absent, a parse failure still propagating.

  The part about invalid text does not hold: \<open>std::stoul\<close> converts the longest numeric
  prefix, so the stored string \<open>12abc\<close>, which is not an unsigned integer, yields 12.
\<close>

theorem getUInt_accepts_prefix:
  "\<not> valid_unsigned ''12abc''
   \<and> getUInt \<lparr>m_argTable = [''n'' \<mapsto> ''12abc''], m_config = cfg_go\<rparr> ''n'' = Inr 12"
  by (simp add: valid_unsigned_def getUInt_def stoul_eval)

text \<open>
  C7 as amended.  With the key absent, \<open>getUInt(key)\<close> throws the key-not-found error and
  \<open>getUInt(key, default)\<close> returns the default.  With the key present, the default is not
  used: both forms give the same result, namely the conversion of the stored string by
  \<open>std::stoul\<close> reduced to 32 bits, and fail exactly when \<open>std::stoul\<close> fails.  A valid unsigned
  integer below \<open>2 ^ 32\<close> is returned as it is; a string that is empty or starts with a
  character that is neither white space, a sign nor a digit fails with
  \<open>std::invalid_argument\<close>.
\<close>

theorem getUInt_contract:
  "(m_argTable a k = None \<longrightarrow>
        getUInt a k = Inl (key_not_found k) \<and> getUInt_def a k d = Inr d)
   \<and> (m_argTable a k = Some s \<longrightarrow>
        getUInt_def a k d = getUInt a k
      \<and> getUInt a k = (case stoul s of Inl e \<Rightarrow> Inl e | Inr v \<Rightarrow> Inr (v mod 2 ^ 32))
      \<and> (valid_unsigned s \<and> decimal s < 2 ^ 32 \<longrightarrow> getUInt a k = Inr (decimal s))
      \<and> (list_all (\<lambda>c. \<not> isspace c \<and> \<not> isdigit c \<and> c \<noteq> CHR ''-'' \<and> c \<noteq> CHR ''+'') (take 1 s) \<longrightarrow>
           getUInt a k = Inl (invalid_argument ''stoul'')))"
proof (intro conjI impI)
  assume "m_argTable a k = None"
  then show "getUInt a k = Inl (key_not_found k)" and "getUInt_def a k d = Inr d"
    by (simp_all add: getUInt_def getUInt_def_def)
next
  assume s: "m_argTable a k = Some s"
  then show "getUInt_def a k d = getUInt a k"
    and "getUInt a k = (case stoul s of Inl e \<Rightarrow> Inl e | Inr v \<Rightarrow> Inr (v mod 2 ^ 32))"
    by (simp_all add: getUInt_def getUInt_def_def)
  {
    assume v: "valid_unsigned s \<and> decimal s < 2 ^ 32"
    then have "decimal s \<le> ULONG_MAX"
      by (simp add: ULONG_MAX_def)
    with v have "stoul s = Inr (decimal s)"
      by (intro stoul_valid) simp_all
    with s v show "getUInt a k = Inr (decimal s)"
      by (simp add: getUInt_def)
  }
  {
    assume "list_all (\<lambda>c. \<not> isspace c \<and> \<not> isdigit c \<and> c \<noteq> CHR ''-'' \<and> c \<noteq> CHR ''+'') (take 1 s)"
    from stoul_no_digits [OF this] s show "getUInt a k = Inl (invalid_argument ''stoul'')"
      by (simp add: getUInt_def)
  }
qed

theorem getUInt_contract_witness:
  "m_argTable \<lparr>m_argTable = [''n'' \<mapsto> ''42'', ''m'' \<mapsto> ''abc''], m_config = cfg_go\<rparr> ''x'' = None
   \<and> getUInt \<lparr>m_argTable = [''n'' \<mapsto> ''42'', ''m'' \<mapsto> ''abc''], m_config = cfg_go\<rparr> ''x'' = Inl (key_not_found ''x'')
   \<and> getUInt_def \<lparr>m_argTable = [''n'' \<mapsto> ''42'', ''m'' \<mapsto> ''abc''], m_config = cfg_go\<rparr> ''x'' 5 = Inr 5
   \<and> m_argTable \<lparr>m_argTable = [''n'' \<mapsto> ''42'', ''m'' \<mapsto> ''abc''], m_config = cfg_go\<rparr> ''n'' = Some ''42''
   \<and> valid_unsigned ''42'' \<and> decimal ''42'' < 2 ^ 32
   \<and> getUInt \<lparr>m_argTable = [''n'' \<mapsto> ''42'', ''m'' \<mapsto> ''abc''], m_config = cfg_go\<rparr> ''n'' = Inr 42
   \<and> m_argTable \<lparr>m_argTable = [''n'' \<mapsto> ''42'', ''m'' \<mapsto> ''abc''], m_config = cfg_go\<rparr> ''m'' = Some ''abc''
   \<and> getUInt \<lparr>m_argTable = [''n'' \<mapsto> ''42'', ''m'' \<mapsto> ''abc''], m_config = cfg_go\<rparr> ''m'' = Inl (invalid_argument ''stoul'')
   \<and> getUInt_def \<lparr>m_argTable = [''n'' \<mapsto> ''42'', ''m'' \<mapsto> ''abc''], m_config = cfg_go\<rparr> ''m'' 5 = Inl (invalid_argument ''stoul'')"
proof -
  let ?a = "\<lparr>m_argTable = [''n'' \<mapsto> ''42'', ''m'' \<mapsto> ''abc''], m_config = cfg_go\<rparr>"
  have x: "m_argTable ?a ''x'' = None" and n: "m_argTable ?a ''n'' = Some ''42''"
    and m: "m_argTable ?a ''m'' = Some ''abc''"
    by simp_all
  have v: "valid_unsigned ''42''" "decimal ''42'' < 2 ^ 32" "decimal ''42'' = 42"
    by (simp_all add: valid_unsigned_def isdigit_def decimal_def digit_val_def)
  have l: "list_all (\<lambda>c. \<not> isspace c \<and> \<not> isdigit c \<and> c \<noteq> CHR ''-'' \<and> c \<noteq> CHR ''+'') (take 1 ''abc'')"
    by (simp add: isspace_def isdigit_def)
  from getUInt_contract [of ?a "''x''" 5, THEN conjunct1] x
  have absent: "getUInt ?a ''x'' = Inl (key_not_found ''x'')" "getUInt_def ?a ''x'' 5 = Inr 5"
    by simp_all
  note cn = getUInt_contract [of ?a "''n''" 5 "''42''", THEN conjunct2, THEN mp, OF n]
  from cn [THEN conjunct2, THEN conjunct2, THEN conjunct1] v
  have ok: "getUInt ?a ''n'' = Inr 42"
    by simp
  note cm = getUInt_contract [of ?a "''m''" 5 "''abc''", THEN conjunct2, THEN mp, OF m]
  from cm [THEN conjunct2, THEN conjunct2, THEN conjunct2] l
  have bad: "getUInt ?a ''m'' = Inl (invalid_argument ''stoul'')"
    by simp
  with cm [THEN conjunct1]
  have bad': "getUInt_def ?a ''m'' 5 = Inl (invalid_argument ''stoul'')"
    by simp
  from x n m v(1,2) absent ok bad bad' show ?thesis
    by simp
qed

text \<open>
  C8.  The claim: \<open>getStrVec\<close> returns exactly the tokens that were joined with single
  spaces.  It fails for a token that contains a space, which is split, and for an empty last
  token, which is lost.
\<close>

theorem getStrVec_splits_token:
  "getStrVec \<lparr>m_argTable = [''-l'' \<mapsto> joined [''a b'', ''c'', ''d'']], m_config = cfg_cmd\<rparr> ''-l'' False
     = Inr [''a'', ''b'', ''c'', ''d'']
   \<and> getStrVec \<lparr>m_argTable = [''-l'' \<mapsto> joined [''a'', ''b'', []]], m_config = cfg_cmd\<rparr> ''-l'' False
     = Inr [''a'', ''b'']"
  by (simp add: getStrVec_def joined_Cons getStrVec_loop.simps getline_def)

text \<open>
  C8 as amended.  For tokens none of which contains a space and the last of which is not
  empty, \<open>getStrVec\<close> on the joined string returns exactly the tokens.
\<close>

theorem getStrVec_joined:
  assumes "m_argTable a k = Some (joined ts)"
    and "\<forall>t\<in>set ts. CHR '' '' \<notin> set t"
    and "ts \<noteq> [] \<longrightarrow> last ts \<noteq> []"
  shows "getStrVec a k throwEx = Inr ts"
  using getStrVec_loop_joined [OF assms(2,3), of "[]"] assms(1)
  by (simp add: getStrVec_def)

theorem getStrVec_joined_witness:
  "m_argTable \<lparr>m_argTable = [''-l'' \<mapsto> joined [''a'', [], ''c'']], m_config = cfg_cmd\<rparr> ''-l''
     = Some (joined [''a'', [], ''c''])
   \<and> CHR '' '' \<notin> set ''a'' \<and> CHR '' '' \<notin> set [] \<and> CHR '' '' \<notin> set ''c'' \<and> last [''a'', [], ''c''] \<noteq> []
   \<and> joined [''a'', [], ''c''] = ''a  c''
   \<and> getStrVec \<lparr>m_argTable = [''-l'' \<mapsto> joined [''a'', [], ''c'']], m_config = cfg_cmd\<rparr> ''-l'' False
     = Inr [''a'', [], ''c'']"
proof -
  have "getStrVec \<lparr>m_argTable = [''-l'' \<mapsto> joined [''a'', [], ''c'']], m_config = cfg_cmd\<rparr> ''-l'' False
     = Inr [''a'', [], ''c'']"
    by (rule getStrVec_joined) simp_all
  then show ?thesis
    by (simp add: joined_Cons)
qed

text \<open>
  C9.  \<open>getUInt\<close> converts with \<open>std::stoul\<close> and truncates the \<open>unsigned long\<close> to 32 bits
  instead of checking that the text is a 32-bit unsigned integer: whenever \<open>std::stoul\<close>
  accepts the stored string with value \<open>v\<close>, both forms return \<open>v mod 2 ^ 32\<close>.  In
  particular, for a stored run of digits \<open>ds\<close> whose value fits \<open>unsigned long\<close> they return
  the value modulo \<open>2 ^ 32\<close>, and for the stored string \<open>-ds\<close> they return the negated value
  modulo \<open>2 ^ 64\<close>, reduced modulo \<open>2 ^ 32\<close>.  So \<open>-1\<close> yields 4294967295 and
  \<open>4294967296\<close> yields 0.
\<close>

theorem getUInt_truncates:
  assumes "m_argTable a k = Some s"
  shows "(stoul s = Inr v \<longrightarrow>
            getUInt a k = Inr (v mod 2 ^ 32) \<and> getUInt_def a k d = Inr (v mod 2 ^ 32))
       \<and> (valid_unsigned ds \<and> decimal ds \<le> ULONG_MAX \<and> s = ds \<longrightarrow>
            getUInt a k = Inr (decimal ds mod 2 ^ 32)
          \<and> getUInt_def a k d = Inr (decimal ds mod 2 ^ 32))
       \<and> (valid_unsigned ds \<and> decimal ds \<le> ULONG_MAX \<and> s = CHR ''-'' # ds \<longrightarrow>
            getUInt a k = Inr ((2 ^ 64 - decimal ds) mod 2 ^ 64 mod 2 ^ 32)
          \<and> getUInt_def a k d = Inr ((2 ^ 64 - decimal ds) mod 2 ^ 64 mod 2 ^ 32))"
proof -
  have conv: "getUInt a k = Inr (w mod 2 ^ 32) \<and> getUInt_def a k d = Inr (w mod 2 ^ 32)"
    if "stoul s = Inr w" for w
    using that assms by (simp add: getUInt_def getUInt_def_def)
  have plain: "stoul s = Inr (decimal ds)"
    if "valid_unsigned ds \<and> decimal ds \<le> ULONG_MAX \<and> s = ds"
    using that stoul_valid [of ds] by simp
  have minus: "stoul s = Inr ((2 ^ 64 - decimal ds) mod 2 ^ 64)"
    if "valid_unsigned ds \<and> decimal ds \<le> ULONG_MAX \<and> s = CHR ''-'' # ds"
    using that stoul_minus [of ds] by simp
  from conv [of v] conv [OF plain] conv [OF minus] show ?thesis
    by blast
qed

theorem getUInt_truncates_witness:
  "m_argTable \<lparr>m_argTable = [''n'' \<mapsto> ''-1'', ''m'' \<mapsto> ''4294967296'', ''w'' \<mapsto> '' +7up''],
      m_config = cfg_go\<rparr> ''n'' = Some ''-1''
   \<and> valid_unsigned ''1'' \<and> decimal ''1'' \<le> ULONG_MAX
   \<and> getUInt \<lparr>m_argTable = [''n'' \<mapsto> ''-1'', ''m'' \<mapsto> ''4294967296'', ''w'' \<mapsto> '' +7up''],
      m_config = cfg_go\<rparr> ''n'' = Inr 4294967295
   \<and> m_argTable \<lparr>m_argTable = [''n'' \<mapsto> ''-1'', ''m'' \<mapsto> ''4294967296'', ''w'' \<mapsto> '' +7up''],
      m_config = cfg_go\<rparr> ''m'' = Some ''4294967296''
   \<and> valid_unsigned ''4294967296'' \<and> decimal ''4294967296'' \<le> ULONG_MAX
   \<and> getUInt \<lparr>m_argTable = [''n'' \<mapsto> ''-1'', ''m'' \<mapsto> ''4294967296'', ''w'' \<mapsto> '' +7up''],
      m_config = cfg_go\<rparr> ''m'' = Inr 0
   \<and> getUInt_def \<lparr>m_argTable = [''n'' \<mapsto> ''-1'', ''m'' \<mapsto> ''4294967296'', ''w'' \<mapsto> '' +7up''],
      m_config = cfg_go\<rparr> ''m'' 7 = Inr 0
   \<and> m_argTable \<lparr>m_argTable = [''n'' \<mapsto> ''-1'', ''m'' \<mapsto> ''4294967296'', ''w'' \<mapsto> '' +7up''],
      m_config = cfg_go\<rparr> ''w'' = Some '' +7up''
   \<and> stoul '' +7up'' = Inr 7
   \<and> getUInt \<lparr>m_argTable = [''n'' \<mapsto> ''-1'', ''m'' \<mapsto> ''4294967296'', ''w'' \<mapsto> '' +7up''],
      m_config = cfg_go\<rparr> ''w'' = Inr 7"
proof -
  let ?a = "\<lparr>m_argTable = [''n'' \<mapsto> ''-1'', ''m'' \<mapsto> ''4294967296'', ''w'' \<mapsto> '' +7up''],
      m_config = cfg_go\<rparr>"
  have n: "m_argTable ?a ''n'' = Some ''-1''" and m: "m_argTable ?a ''m'' = Some ''4294967296''"
    and w: "m_argTable ?a ''w'' = Some '' +7up''"
    by simp_all
  have v1: "valid_unsigned ''1''" and d1: "decimal ''1'' = 1"
    and v2: "valid_unsigned ''4294967296''" and d2: "decimal ''4294967296'' = 4294967296"
    by (simp_all add: valid_unsigned_def isdigit_def decimal_def digit_val_def)
  have b1: "decimal ''1'' \<le> ULONG_MAX" and b2: "decimal ''4294967296'' \<le> ULONG_MAX"
    by (simp_all add: d1 d2 ULONG_MAX_def)
  have s: "stoul '' +7up'' = Inr 7"
    by (simp add: stoul_eval)
  from getUInt_truncates [OF n, where ds = "''1''", THEN conjunct2, THEN conjunct2] v1 b1
  have minus: "getUInt ?a ''n'' = Inr 4294967295"
    by (simp add: d1)
  from getUInt_truncates [OF m, where ds = "''4294967296''" and d = 7, THEN conjunct2, THEN conjunct1] v2 b2
  have big: "getUInt ?a ''m'' = Inr 0" "getUInt_def ?a ''m'' 7 = Inr 0"
    by (simp_all add: d2)
  from getUInt_truncates [OF w, where v = 7, THEN conjunct1] s
  have prefix: "getUInt ?a ''w'' = Inr 7"
    by simp
  from n m w v1 v2 b1 b2 s minus big prefix show ?thesis
    by simp
qed

section \<open>Claims about Commander::run\<close>

text \<open>
  In this section a status is \<^emph>\<open>passed to the status handler\<close> when \<open>run\<close> makes the call
  \<open>m_handler.handle\<close> with it, on the member \<open>m_handler\<close> of the \<open>Commander\<close>; these are the
  \<open>Handle\<close> entries of the calls of a run.  What reaches a handler that the host installed
  with \<open>setHandler\<close> is the subject of C6 only.
\<close>

text \<open>
  C3.  The claim: with handlers registered under \<open>cmd1\<close> and \<open>cmd2\<close>, running
  \<open>cmd1 v1 v2 cmd2 v3\<close> invokes the first handler with \<open>cmd1 v1 v2\<close>, the second with
  \<open>cmd2 v3\<close>, and the status handler receives exactly two statuses.

  The \<open>try\<close> block encloses the whole loop, so an exception in the first invocation ends the
  run: here the segment \<open>cmd -p 1\<close> gives \<open>-p\<close> one value of its two, one status is passed
  to the status handler, and the handler of \<open>go\<close> is never invoked.
\<close>

theorem run_first_command_fails:
  "Commander_isCommand commander0 ''cmd'' \<and> Commander_isCommand commander0 ''go''
   \<and> \<not> Commander_isCommand commander0 ''-p'' \<and> \<not> Commander_isCommand commander0 ''1''
   \<and> \<not> Commander_isCommand commander0 ''c''
   \<and> run_args commander0 [''cmd'', ''-p'', ''1'', ''go'', ''c''] =
       Some ([Invoke ''cmd'' [''cmd'', ''-p'', ''1''],
              Handle \<lparr>st_name = ''cmd'', status = ERROR,
                      msg = ''not enough arguments '' @ dq @ ''-p'' @ dq\<rparr>], None)"
proof -
  have "CommandArgs_ctor [''cmd'', ''-p'', ''1''] cfg_cmd =
      Some (Inl (runtime_error (''not enough arguments '' @ dq @ ''-p'' @ dq)))"
    by (simp add: CommandArgs_ctor_def parse_eval cfg_cmd_name cfg_cmd_has cfg_cmd_options
          opt_pair_def)
  then show ?thesis
    by (simp add: run_eval)
qed

text \<open>
  C3 as amended.  Let \<open>cmd1\<close> and \<open>cmd2\<close> be registered and \<open>v1\<close>, \<open>v2\<close>, \<open>v3\<close> not.  Running
  \<open>cmd1 v1 v2 cmd2 v3\<close> first invokes the handler of \<open>cmd1\<close> with \<open>cmd1 v1 v2\<close>.
  \<^item> When that invocation returns a status, the status is passed to the status handler and
    the handler of \<open>cmd2\<close> is invoked with \<open>cmd2 v3\<close>.  When the second invocation returns a
    status, that status is passed second; when it throws a \<open>std::exception\<close>, the status
    \<open>(cmd2, ERROR, what())\<close> is passed second; in both cases \<open>run\<close> returns after exactly two
    statuses.  When it throws anything else, no second status is passed and the exception
    leaves \<open>run\<close>.
  \<^item> When the first invocation throws a \<open>std::exception\<close>, exactly one status,
    \<open>(cmd1, ERROR, what())\<close>, is passed and the handler of \<open>cmd2\<close> is never invoked.  When it
    throws anything else, no status is passed, the handler of \<open>cmd2\<close> is never invoked and the
    exception leaves \<open>run\<close>.
  \<^item> When an invocation that is reached does not return, \<open>run\<close> does not return.
\<close>

theorem run_two_commands:
  assumes "m_commands c cmd1 = Some h1" and "m_commands c cmd2 = Some h2"
    and "\<not> Commander_isCommand c v1" and "\<not> Commander_isCommand c v2"
    and "\<not> Commander_isCommand c v3"
  shows "run_args c [cmd1, v1, v2, cmd2, v3] =
    (case invoke h1 [cmd1, v1, v2] of
       None \<Rightarrow> None
     | Some (Inl ex) \<Rightarrow>
         if is_std_exception ex
         then Some ([Invoke cmd1 [cmd1, v1, v2],
                     Handle \<lparr>st_name = cmd1, status = ERROR, msg = what ex\<rparr>], None)
         else Some ([Invoke cmd1 [cmd1, v1, v2]], Some ex)
     | Some (Inr s1) \<Rightarrow>
         (case invoke h2 [cmd2, v3] of
            None \<Rightarrow> None
          | Some (Inl ex) \<Rightarrow>
              if is_std_exception ex
              then Some ([Invoke cmd1 [cmd1, v1, v2], Handle s1, Invoke cmd2 [cmd2, v3],
                          Handle \<lparr>st_name = cmd2, status = ERROR, msg = what ex\<rparr>], None)
              else Some ([Invoke cmd1 [cmd1, v1, v2], Handle s1, Invoke cmd2 [cmd2, v3]], Some ex)
          | Some (Inr s2) \<Rightarrow>
              Some ([Invoke cmd1 [cmd1, v1, v2], Handle s1, Invoke cmd2 [cmd2, v3], Handle s2],
                    None)))"
proof -
  have c1: "Commander_isCommand c cmd1" and c2: "Commander_isCommand c cmd2"
    using assms(1,2) by (simp_all add: Commander_isCommand_def)
  have i1: "invokeCommand c cmd1 seg = invoke h1 seg" for seg
    using assms(1) by (simp add: invokeCommand_def)
  have i2: "invokeCommand c cmd2 seg = invoke h2 seg" for seg
    using assms(2) by (simp add: invokeCommand_def)
  show ?thesis
    by (simp add: run_args_loop c1 c2 assms(3-5) i1 i2 split: option.splits sum.splits)
qed

theorem run_two_commands_witness:
  "m_commands commander0 ''go'' = Some caller_go \<and> m_commands commander0 ''cmd'' = Some caller_cmd
   \<and> m_commands commander0 ''bad'' = Some caller_bad
   \<and> \<not> Commander_isCommand commander0 ''-n'' \<and> \<not> Commander_isCommand commander0 ''7''
   \<and> \<not> Commander_isCommand commander0 ''a'' \<and> \<not> Commander_isCommand commander0 ''b''
   \<and> \<not> Commander_isCommand commander0 ''c'' \<and> \<not> Commander_isCommand commander0 ''x''
   \<and> \<not> Commander_isCommand commander0 ''y''
   \<and> run_args commander0 [''go'', ''-n'', ''7'', ''cmd'', ''c''] =
       Some ([Invoke ''go'' [''go'', ''-n'', ''7''], Handle \<lparr>st_name = ''go'', status = OK, msg = []\<rparr>,
              Invoke ''cmd'' [''cmd'', ''c''], Handle \<lparr>st_name = ''cmd'', status = OK, msg = ''c''\<rparr>], None)
   \<and> run_args commander0 [''cmd'', ''a'', ''b'', ''go'', ''c''] =
       Some ([Invoke ''cmd'' [''cmd'', ''a'', ''b''], Handle \<lparr>st_name = ''cmd'', status = OK, msg = ''a b''\<rparr>,
              Invoke ''go'' [''go'', ''c''],
              Handle \<lparr>st_name = ''go'', status = ERROR, msg = what (key_not_found ''-n'')\<rparr>], None)
   \<and> run_args commander0 [''cmd'', ''a'', ''b'', ''bad'', ''c''] =
       Some ([Invoke ''cmd'' [''cmd'', ''a'', ''b''], Handle \<lparr>st_name = ''cmd'', status = OK, msg = ''a b''\<rparr>,
              Invoke ''bad'' [''bad'', ''c'']], Some non_std)
   \<and> run_args commander0 [''go'', ''x'', ''y'', ''cmd'', ''c''] =
       Some ([Invoke ''go'' [''go'', ''x'', ''y''],
              Handle \<lparr>st_name = ''go'', status = ERROR, msg = what (key_not_found ''-n'')\<rparr>], None)
   \<and> run_args commander0 [''bad'', ''x'', ''y'', ''go'', ''c''] =
       Some ([Invoke ''bad'' [''bad'', ''x'', ''y'']], Some non_std)"
proof -
  have go: "m_commands commander0 ''go'' = Some caller_go"
    and cmd: "m_commands commander0 ''cmd'' = Some caller_cmd"
    and bad: "m_commands commander0 ''bad'' = Some caller_bad"
    by (simp_all add: commander0_commands)
  have n: "\<not> Commander_isCommand commander0 ''-n''" and s: "\<not> Commander_isCommand commander0 ''7''"
    and a: "\<not> Commander_isCommand commander0 ''a''" and b: "\<not> Commander_isCommand commander0 ''b''"
    and c: "\<not> Commander_isCommand commander0 ''c''" and x: "\<not> Commander_isCommand commander0 ''x''"
    and y: "\<not> Commander_isCommand commander0 ''y''"
    by (simp_all add: commander0_isCommand)
  from run_two_commands [OF go cmd n s c]
  have r1: "run_args commander0 [''go'', ''-n'', ''7'', ''cmd'', ''c''] =
       Some ([Invoke ''go'' [''go'', ''-n'', ''7''], Handle \<lparr>st_name = ''go'', status = OK, msg = []\<rparr>,
              Invoke ''cmd'' [''cmd'', ''c''], Handle \<lparr>st_name = ''cmd'', status = OK, msg = ''c''\<rparr>], None)"
    by (simp add: invoke_go invoke_cmd)
  from run_two_commands [OF cmd go a b c]
  have r2: "run_args commander0 [''cmd'', ''a'', ''b'', ''go'', ''c''] =
       Some ([Invoke ''cmd'' [''cmd'', ''a'', ''b''], Handle \<lparr>st_name = ''cmd'', status = OK, msg = ''a b''\<rparr>,
              Invoke ''go'' [''go'', ''c''],
              Handle \<lparr>st_name = ''go'', status = ERROR, msg = what (key_not_found ''-n'')\<rparr>], None)"
    by (simp add: invoke_cmd_pair invoke_go_loose std_key_not_found)
  from run_two_commands [OF cmd bad a b c]
  have r3: "run_args commander0 [''cmd'', ''a'', ''b'', ''bad'', ''c''] =
       Some ([Invoke ''cmd'' [''cmd'', ''a'', ''b''], Handle \<lparr>st_name = ''cmd'', status = OK, msg = ''a b''\<rparr>,
              Invoke ''bad'' [''bad'', ''c'']], Some non_std)"
    by (simp add: invoke_cmd_pair invoke_bad_one)
  from run_two_commands [OF go cmd x y c]
  have r4: "run_args commander0 [''go'', ''x'', ''y'', ''cmd'', ''c''] =
       Some ([Invoke ''go'' [''go'', ''x'', ''y''],
              Handle \<lparr>st_name = ''go'', status = ERROR, msg = what (key_not_found ''-n'')\<rparr>], None)"
    by (simp add: invoke_go_loose2 std_key_not_found)
  from run_two_commands [OF bad go x y c]
  have r5: "run_args commander0 [''bad'', ''x'', ''y'', ''go'', ''c''] =
       Some ([Invoke ''bad'' [''bad'', ''x'', ''y'']], Some non_std)"
    by (simp add: invoke_bad_pair)
  from go cmd bad n s a b c x y r1 r2 r3 r4 r5 show ?thesis
    by simp
qed

text \<open>
  C4.  The claim: for every token sequence and every set of handlers \<open>run\<close> raises no error
  to its caller.  The handler of the \<open>try\<close> block is \<open>catch (const std::exception& ex)\<close>:
  what a handler throws that is not derived from \<open>std::exception\<close> leaves \<open>run\<close>.
\<close>

theorem run_non_std_escapes:
  "run_args commander0 [''bad''] = Some ([Invoke ''bad'' [''bad'']], Some non_std)"
  by (simp add: run_eval CommandArgs_ctor_def parse_eval has_def)

text \<open>
  C4 as amended.  A token sequence is empty, or begins with a token that is not a registered
  command, or is a concatenation of segments.
  \<^item> When the first token is not a registered command, the status
    \<open>(token, ERROR, not a command)\<close> is passed to the status handler, nothing is invoked and
    \<open>run\<close> returns.
  \<^item> When the invocations for the segments \<open>segs\<close> return statuses and the invocation for the
    next segment \<open>seg\<close> throws \<open>ex\<close> (an arity error of the parser, a failed conversion or
    lookup inside the handler, an empty callback, or what the handler throws itself), then:
    if \<open>ex\<close> is a \<open>std::exception\<close>, \<open>run\<close> passes the status \<open>(command, ERROR, what())\<close> to
    the status handler after the statuses of \<open>segs\<close>, invokes nothing further and returns;
    otherwise \<open>ex\<close> leaves \<open>run\<close> after the statuses of \<open>segs\<close>.
  \<^item> When the invocations for all segments return, \<open>run\<close> passes their statuses in order and
    returns.
  \<^item> An exception that leaves \<open>run\<close> is not derived from \<open>std::exception\<close> and was thrown by
    the callback of a registered caller; when the callbacks throw nothing but
    \<open>std::exception\<close>s, no run raises an exception.
  \<^item> When no registered configuration declares an option under the name \<open>unknown\<close>, every
    run returns.
  \<^item> The calls \<open>run\<close> makes are the same whichever handler was given to \<open>setHandler\<close>.
\<close>

theorem run_exception_boundary:
  "(\<not> Commander_isCommand c a \<longrightarrow>
      run_args c (a # rest) =
        Some ([Handle \<lparr>st_name = a, status = ERROR, msg = ''not a command''\<rparr>], None))
   \<and> (returned c segs \<and> segment c seg \<and> segment_end c post
        \<and> invokeCommand c (hd seg) seg = Some (Inl ex) \<longrightarrow>
      run_args c (concat (map fst segs) @ seg @ post) =
        (if is_std_exception ex
         then Some (completed segs @ [Invoke (hd seg) seg,
                      Handle \<lparr>st_name = hd seg, status = ERROR, msg = what ex\<rparr>], None)
         else Some (completed segs @ [Invoke (hd seg) seg], Some ex)))
   \<and> (returned c segs \<longrightarrow> run_args c (concat (map fst segs)) = Some (completed segs, None))
   \<and> (args \<noteq> [] \<and> Commander_isCommand c (hd args) \<longrightarrow>
        (\<exists>parts. args = concat parts \<and> list_all (segment c) parts))
   \<and> (\<forall>evs esc. run_args c args = Some (evs, Some esc) \<longrightarrow>
        \<not> is_std_exception esc
      \<and> (\<exists>caller cb cargs. caller \<in> ran (m_commands c)
            \<and> (m_callback caller = Some cb \<or> m_callback caller = None \<and> m_invoke caller = Some cb)
            \<and> cb cargs = Inl esc))
   \<and> ((\<forall>caller\<in>ran (m_commands c). \<forall>cb cargs e.
          (m_callback caller = Some cb \<or> m_invoke caller = Some cb) \<and> cb cargs = Inl e \<longrightarrow>
          is_std_exception e) \<longrightarrow>
        (\<forall>evs esc. run_args c args = Some (evs, esc) \<longrightarrow> esc = None))
   \<and> ((\<forall>caller\<in>ran (m_commands c). \<not> has (cc_config caller) ''unknown'') \<longrightarrow>
        (\<exists>res. run_args c args = Some res))
   \<and> run_args (setHandler c h) args = run_args c args"
proof -
  have unregistered: "run_args c (a # rest) =
      Some ([Handle \<lparr>st_name = a, status = ERROR, msg = ''not a command''\<rparr>], None)"
    if "\<not> Commander_isCommand c a"
    using that by (simp add: run_args_loop)
  have convert: "run_args c (concat (map fst segs) @ seg @ post) =
        (if is_std_exception ex
         then Some (completed segs @ [Invoke (hd seg) seg,
                      Handle \<lparr>st_name = hd seg, status = ERROR, msg = what ex\<rparr>], None)
         else Some (completed segs @ [Invoke (hd seg) seg], Some ex))"
    if r: "returned c segs" and s: "segment c seg" and p: "segment_end c post"
      and i: "invokeCommand c (hd seg) seg = Some (Inl ex)"
  proof -
    from s obtain n vs where seg: "seg = n # vs" and n: "Commander_isCommand c n"
      by (cases seg) (simp_all add: segment_def)
    from segment_takeWhile(1) [OF s p] seg
    have tw: "takeWhile (\<lambda>v. \<not> Commander_isCommand c v) (vs @ post) = vs"
      by simp
    from i have failing: "run_loop c (seg @ post) = Some ([Invoke (hd seg) seg], Some (hd seg, ex))"
      unfolding seg by (simp add: n tw Let_def)
    from seg n have "segment_end c (seg @ post)"
      by (simp add: segment_end_def)
    from run_loop_returned [OF r this] failing
    have "run_loop c (concat (map fst segs) @ seg @ post) =
        Some (completed segs @ [Invoke (hd seg) seg], Some (hd seg, ex))"
      by simp
    then show ?thesis
      by (simp add: run_args_loop)
  qed
  have all_returned: "run_args c (concat (map fst segs)) = Some (completed segs, None)"
    if r: "returned c segs"
  proof -
    have "segment_end c []"
      by (simp add: segment_end_def)
    from run_loop_returned [OF r this] show ?thesis
      by (simp add: run_args_loop)
  qed
  have cover: "\<exists>parts. args = concat parts \<and> list_all (segment c) parts"
    if "args \<noteq> []" and "Commander_isCommand c (hd args)"
    using that by (rule segments_cover)
  have escape: "\<not> is_std_exception esc
      \<and> (\<exists>caller cb cargs. caller \<in> ran (m_commands c)
            \<and> (m_callback caller = Some cb \<or> m_callback caller = None \<and> m_invoke caller = Some cb)
            \<and> cb cargs = Inl esc)"
    if "run_args c args = Some (evs, Some esc)" for evs esc
  proof -
    from that obtain cmd where ns: "\<not> is_std_exception esc"
      and l: "run_loop c args = Some (evs, Some (cmd, esc))"
      by (auto simp: run_args_loop split: option.splits prod.splits if_splits)
    from run_loop_thrown [OF l] obtain seg' where
      "invokeCommand c cmd seg' = Some (Inl esc)"
      by auto
    then obtain caller where caller: "m_commands c cmd = Some caller"
      and i: "invoke caller seg' = Some (Inl esc)"
      using ns by (auto simp: invokeCommand_def split: option.splits)
    from caller have "caller \<in> ran (m_commands c)"
      by (auto simp: ran_def)
    with invoke_thrown [OF i ns] ns show ?thesis
      by blast
  qed
  have only_std: "esc = None"
    if std: "\<forall>caller\<in>ran (m_commands c). \<forall>cb cargs e.
          (m_callback caller = Some cb \<or> m_invoke caller = Some cb) \<and> cb cargs = Inl e \<longrightarrow>
          is_std_exception e"
      and r: "run_args c args = Some (evs, esc)" for evs esc
  proof (cases esc)
    case None
    then show ?thesis .
  next
    case (Some e)
    with escape [of evs e] r std show ?thesis
      by blast
  qed
  have total: "\<exists>res. run_args c args = Some res"
    if "\<forall>caller\<in>ran (m_commands c). \<not> has (cc_config caller) ''unknown''"
  proof -
    from run_loop_terminates [OF that, of args] obtain res where
      "run_loop c args = Some res"
      by blast
    then show ?thesis
      by (auto simp: run_args_loop split: prod.splits option.splits)
  qed
  note installed = run_args_setHandler [of c h args]
  from unregistered convert all_returned cover escape only_std total installed show ?thesis
    by blast
qed

theorem run_exception_boundary_witness:
  "\<not> Commander_isCommand commander0 ''notacommand''
   \<and> run_args commander0 [''notacommand'', ''x''] =
       Some ([Handle \<lparr>st_name = ''notacommand'', status = ERROR, msg = ''not a command''\<rparr>], None)
   \<and> returned commander0 [([''cmd'', ''a'', ''b''], \<lparr>st_name = ''cmd'', status = OK, msg = ''a b''\<rparr>)]
   \<and> segment commander0 [''go'', ''c''] \<and> segment_end commander0 [''cmd'']
   \<and> invokeCommand commander0 ''go'' [''go'', ''c''] = Some (Inl (key_not_found ''-n''))
   \<and> is_std_exception (key_not_found ''-n'')
   \<and> run_args commander0 [''cmd'', ''a'', ''b'', ''go'', ''c'', ''cmd''] =
       Some ([Invoke ''cmd'' [''cmd'', ''a'', ''b''], Handle \<lparr>st_name = ''cmd'', status = OK, msg = ''a b''\<rparr>,
              Invoke ''go'' [''go'', ''c''],
              Handle \<lparr>st_name = ''go'', status = ERROR, msg = what (key_not_found ''-n'')\<rparr>], None)
   \<and> returned commander0 [] \<and> segment commander0 [''cmd'', ''-p'', ''1'']
   \<and> segment_end commander0 [''go'', ''c'']
   \<and> invokeCommand commander0 ''cmd'' [''cmd'', ''-p'', ''1''] =
       Some (Inl (runtime_error (''not enough arguments '' @ dq @ ''-p'' @ dq)))
   \<and> run_args commander0 [''cmd'', ''-p'', ''1'', ''go'', ''c''] =
       Some ([Invoke ''cmd'' [''cmd'', ''-p'', ''1''],
              Handle \<lparr>st_name = ''cmd'', status = ERROR,
                      msg = ''not enough arguments '' @ dq @ ''-p'' @ dq\<rparr>], None)
   \<and> returned commander0 [([''cmd''], \<lparr>st_name = ''cmd'', status = OK, msg = []\<rparr>)]
   \<and> segment commander0 [''bad''] \<and> segment_end commander0 []
   \<and> invokeCommand commander0 ''bad'' [''bad''] = Some (Inl non_std)
   \<and> \<not> is_std_exception non_std
   \<and> run_args commander0 [''cmd'', ''bad''] =
      Some ([Invoke ''cmd'' [''cmd''], Handle \<lparr>st_name = ''cmd'', status = OK, msg = []\<rparr>,
             Invoke ''bad'' [''bad'']], Some non_std)
   \<and> returned commander0 [([''go'', ''-n'', ''7''], \<lparr>st_name = ''go'', status = OK, msg = []\<rparr>),
         ([''cmd'', ''c''], \<lparr>st_name = ''cmd'', status = OK, msg = ''c''\<rparr>)]
   \<and> run_args commander0 [''go'', ''-n'', ''7'', ''cmd'', ''c''] =
       Some ([Invoke ''go'' [''go'', ''-n'', ''7''], Handle \<lparr>st_name = ''go'', status = OK, msg = []\<rparr>,
              Invoke ''cmd'' [''cmd'', ''c''], Handle \<lparr>st_name = ''cmd'', status = OK, msg = ''c''\<rparr>], None)
   \<and> Commander_isCommand commander0 (hd [''go'', ''x''])
   \<and> (\<exists>parts. [''go'', ''x''] = concat parts \<and> list_all (segment commander0) parts)
   \<and> \<not> has (cc_config caller_go) ''unknown'' \<and> \<not> has (cc_config caller_cmd) ''unknown''
   \<and> run_args commander1 [''go'', ''-n''] \<noteq> None
   \<and> snd (the (run_args commander1 [''go'', ''-n''])) = None
   \<and> run_args (setHandler commander0 recorder) [''cmd'', ''bad''] = run_args commander0 [''cmd'', ''bad'']"
proof -
  note b0 = run_exception_boundary [where c = commander0]
  note b1 = run_exception_boundary [where c = commander1 and args = "[''go'', ''-n'']"]
  have n: "\<not> Commander_isCommand commander0 ''notacommand''"
    by (simp add: commander0_isCommand)
  from b0 [where a = "''notacommand''" and rest = "[''x'']", THEN conjunct1] n
  have r1: "run_args commander0 [''notacommand'', ''x''] =
       Some ([Handle \<lparr>st_name = ''notacommand'', status = ERROR, msg = ''not a command''\<rparr>], None)"
    by simp
  have ret2: "returned commander0 [([''cmd'', ''a'', ''b''], \<lparr>st_name = ''cmd'', status = OK, msg = ''a b''\<rparr>)]"
    by (simp add: returned_def segment_def commander0_isCommand commander0_invoke invoke_cmd_pair)
  have seg2: "segment commander0 [''go'', ''c'']" and end2: "segment_end commander0 [''cmd'']"
    by (simp_all add: segment_def segment_end_def commander0_isCommand)
  have inv2: "invokeCommand commander0 ''go'' [''go'', ''c''] = Some (Inl (key_not_found ''-n''))"
    by (simp add: commander0_invoke invoke_go_loose)
  have std2: "is_std_exception (key_not_found ''-n'')"
    by (rule std_key_not_found)
  from b0 [where segs = "[([''cmd'', ''a'', ''b''], \<lparr>st_name = ''cmd'', status = OK, msg = ''a b''\<rparr>)]"
      and seg = "[''go'', ''c'']" and post = "[''cmd'']" and ex = "key_not_found ''-n''",
      THEN conjunct2, THEN conjunct1] ret2 seg2 end2 inv2 std2
  have r2: "run_args commander0 [''cmd'', ''a'', ''b'', ''go'', ''c'', ''cmd''] =
       Some ([Invoke ''cmd'' [''cmd'', ''a'', ''b''], Handle \<lparr>st_name = ''cmd'', status = OK, msg = ''a b''\<rparr>,
              Invoke ''go'' [''go'', ''c''],
              Handle \<lparr>st_name = ''go'', status = ERROR, msg = what (key_not_found ''-n'')\<rparr>], None)"
    by (simp add: completed_def)
  have ret3: "returned commander0 []"
    by (simp add: returned_def)
  have seg3: "segment commander0 [''cmd'', ''-p'', ''1'']" and end3: "segment_end commander0 [''go'', ''c'']"
    by (simp_all add: segment_def segment_end_def commander0_isCommand)
  have inv3: "invokeCommand commander0 ''cmd'' [''cmd'', ''-p'', ''1''] =
       Some (Inl (runtime_error (''not enough arguments '' @ dq @ ''-p'' @ dq)))"
    by (simp add: commander0_invoke invoke_cmd_arity)
  from b0 [where segs = "[]" and seg = "[''cmd'', ''-p'', ''1'']" and post = "[''go'', ''c'']"
      and ex = "runtime_error (''not enough arguments '' @ dq @ ''-p'' @ dq)",
      THEN conjunct2, THEN conjunct1] ret3 seg3 end3 inv3
  have r3: "run_args commander0 [''cmd'', ''-p'', ''1'', ''go'', ''c''] =
       Some ([Invoke ''cmd'' [''cmd'', ''-p'', ''1''],
              Handle \<lparr>st_name = ''cmd'', status = ERROR,
                      msg = ''not enough arguments '' @ dq @ ''-p'' @ dq\<rparr>], None)"
    by (simp add: completed_def)
  have ret4: "returned commander0 [([''cmd''], \<lparr>st_name = ''cmd'', status = OK, msg = []\<rparr>)]"
    by (simp add: returned_def segment_def commander0_isCommand commander0_invoke invoke_cmd_only)
  have seg4: "segment commander0 [''bad'']" and end4: "segment_end commander0 []"
    by (simp_all add: segment_def segment_end_def commander0_isCommand)
  have inv4: "invokeCommand commander0 ''bad'' [''bad''] = Some (Inl non_std)"
    by (simp add: commander0_invoke invoke_bad_only)
  from b0 [where segs = "[([''cmd''], \<lparr>st_name = ''cmd'', status = OK, msg = []\<rparr>)]"
      and seg = "[''bad'']" and post = "[]" and ex = non_std,
      THEN conjunct2, THEN conjunct1] ret4 seg4 end4 inv4
  have r4: "run_args commander0 [''cmd'', ''bad''] =
      Some ([Invoke ''cmd'' [''cmd''], Handle \<lparr>st_name = ''cmd'', status = OK, msg = []\<rparr>,
             Invoke ''bad'' [''bad'']], Some non_std)"
    by (simp add: completed_def)
  have ret5: "returned commander0 [([''go'', ''-n'', ''7''], \<lparr>st_name = ''go'', status = OK, msg = []\<rparr>),
         ([''cmd'', ''c''], \<lparr>st_name = ''cmd'', status = OK, msg = ''c''\<rparr>)]"
    by (simp add: returned_def segment_def commander0_isCommand commander0_invoke invoke_go invoke_cmd)
  from b0 [where segs = "[([''go'', ''-n'', ''7''], \<lparr>st_name = ''go'', status = OK, msg = []\<rparr>),
         ([''cmd'', ''c''], \<lparr>st_name = ''cmd'', status = OK, msg = ''c''\<rparr>)]",
      THEN conjunct2, THEN conjunct2, THEN conjunct1] ret5
  have r5: "run_args commander0 [''go'', ''-n'', ''7'', ''cmd'', ''c''] =
       Some ([Invoke ''go'' [''go'', ''-n'', ''7''], Handle \<lparr>st_name = ''go'', status = OK, msg = []\<rparr>,
              Invoke ''cmd'' [''cmd'', ''c''], Handle \<lparr>st_name = ''cmd'', status = OK, msg = ''c''\<rparr>], None)"
    by (simp add: completed_def)
  have hd6: "Commander_isCommand commander0 (hd [''go'', ''x''])"
    by (simp add: commander0_isCommand)
  from b0 [where args = "[''go'', ''x'']", THEN conjunct2, THEN conjunct2, THEN conjunct2,
      THEN conjunct1] hd6
  have r6: "\<exists>parts. [''go'', ''x''] = concat parts \<and> list_all (segment commander0) parts"
    by simp
  from b0 [where args = "[''cmd'', ''bad'']", THEN conjunct2, THEN conjunct2, THEN conjunct2,
      THEN conjunct2, THEN conjunct1] r4
  have r7: "\<not> is_std_exception non_std"
    by blast
  have u: "\<not> has (cc_config caller_go) ''unknown''" "\<not> has (cc_config caller_cmd) ''unknown''"
    by (simp_all add: caller_go_def caller_cmd_def cfg_go_has cfg_cmd_has)
  then have all: "\<forall>caller\<in>ran (m_commands commander1). \<not> has (cc_config caller) ''unknown''"
    using commander1_ran by blast
  have only_std: "\<forall>caller\<in>ran (m_commands commander1). \<forall>cb cargs e.
      (m_callback caller = Some cb \<or> m_invoke caller = Some cb) \<and> cb cargs = Inl e \<longrightarrow>
      is_std_exception e"
  proof (intro ballI allI impI)
    fix caller cb cargs e
    assume "caller \<in> ran (m_commands commander1)"
      and cb: "(m_callback caller = Some cb \<or> m_invoke caller = Some cb) \<and> cb cargs = Inl e"
    from commander1_ran [OF this(1)] cb show "is_std_exception e"
      by (auto simp: caller_go_def caller_cmd_def callback_ok_def dest: callback_uint_std)
  qed
  from b1 [THEN conjunct2, THEN conjunct2, THEN conjunct2, THEN conjunct2, THEN conjunct2,
      THEN conjunct2, THEN conjunct1] all
  obtain evs esc where r: "run_args commander1 [''go'', ''-n''] = Some (evs, esc)"
    by auto
  with b1 [THEN conjunct2, THEN conjunct2, THEN conjunct2, THEN conjunct2, THEN conjunct2,
      THEN conjunct1] only_std
  have "esc = None"
    by blast
  with r have r8: "run_args commander1 [''go'', ''-n''] \<noteq> None"
    "snd (the (run_args commander1 [''go'', ''-n''])) = None"
    by simp_all
  from b0 [where h = recorder and args = "[''cmd'', ''bad'']", THEN conjunct2, THEN conjunct2,
      THEN conjunct2, THEN conjunct2, THEN conjunct2, THEN conjunct2, THEN conjunct2]
  have r9: "run_args (setHandler commander0 recorder) [''cmd'', ''bad''] = run_args commander0 [''cmd'', ''bad'']" .
  from n r1 ret2 seg2 end2 inv2 std2 r2 ret3 seg3 end3 inv3 r3 ret4 seg4 end4 inv4 r7 r4 ret5 r5
    hd6 r6 u r8 r9
  show ?thesis
    by blast
qed

text \<open>
  C6.  The claim: running \<open>notacommand x\<close> on a \<open>Commander\<close> without a handler named
  \<open>notacommand\<close> makes the status-handling callback receive exactly one status, with
  \<open>status = ERROR\<close> and the message \<open>not a command\<close>, and invokes no registered handler.

  \<open>run\<close> makes exactly one call, \<open>m_handler.handle\<close> with that status, and no invocation.
  The status does not reach the callback, though.  The member \<open>m_handler\<close> is a
  \<open>StatusHandler\<close> held by value and \<open>setHandler\<close> assigns the installed handler to it: the
  assignment copies the base part of the handler, which is empty, and \<open>m_handler\<close> remains an
  object of the class \<open>StatusHandler\<close>, whose \<open>handle\<close> has the empty body.  With the handler
  \<open>recorder\<close> installed, which would have logged the status had its \<open>handle\<close> been called, the
  log is still empty after the run; in the same way every installed handler \<open>h\<close> leaves every
  state \<open>w\<close> as it was.
\<close>

theorem run_status_not_delivered:
  "\<not> Commander_isCommand (setHandler commander0 recorder) ''notacommand''
   \<and> run_args (setHandler commander0 recorder) [''notacommand'', ''x''] =
       Some ([Handle \<lparr>st_name = ''notacommand'', status = ERROR, msg = ''not a command''\<rparr>], None)
   \<and> handle recorder \<lparr>st_name = ''notacommand'', status = ERROR, msg = ''not a command''\<rparr> [] =
       [\<lparr>st_name = ''notacommand'', status = ERROR, msg = ''not a command''\<rparr>]
   \<and> run_effect (setHandler commander0 recorder) [''notacommand'', ''x''] [] = Some []
   \<and> run_effect (setHandler commander0 h) [''notacommand'', ''x''] w = Some w"
proof -
  have n: "\<not> Commander_isCommand commander0 ''notacommand''"
    by (simp add: commander0_isCommand)
  then have r: "run_args commander0 [''notacommand'', ''x''] =
      Some ([Handle \<lparr>st_name = ''notacommand'', status = ERROR, msg = ''not a command''\<rparr>], None)"
    by (simp add: run_args_loop)
  have m: "handle (m_handler (setHandler commander0 h')) = (\<lambda>stat w. w)" for h'
    by (simp add: setHandler_def StatusHandler_assign_def commander0_def appendCommand_def
          Commander_ctor_def StatusHandler_ctor_def)
  have e: "run_effect (setHandler commander0 h') [''notacommand'', ''x''] w' = Some w'" for h' w'
    by (simp add: run_effect_def run_args_setHandler r m)
  from n r e show ?thesis
    by (simp add: isCommand_setHandler run_args_setHandler recorder_def)
qed

end
